theory Spec2Isabelle
  imports Main "HOL-Library.Word" "HOL-Library.Signed_Division"
begin

section \<open>Host program for the OpenCL vector addition (opencl\_matrix\_add.cpp)\<close>

text \<open>
  The program is one host thread that calls the C library and the OpenCL runtime in a
  fixed order. The model keeps the functions of the source as state transformers over a
  record of the program's globals. What the outside world answers (whether an allocation
  succeeds, which status an OpenCL call returns, which numbers \<open>rand\<close> produces) is
  read from a record \<open>env\<close>, so that every theorem holds for all answers unless it
  says otherwise.
\<close>

subsection \<open>C types\<close>

type_synonym cint = "32 word"       \<comment> \<open>C \<open>int\<close>; \<open>sint\<close> reads its value\<close>
type_synonym size_t = "64 word"
type_synonym cl_int = int           \<comment> \<open>status codes, only compared\<close>
type_synonym cl_mem = nat           \<comment> \<open>handle of a device buffer\<close>

definition sizeof_int :: size_t where
  "sizeof_int = 4"

definition sizeof_cl_mem :: size_t where
  "sizeof_cl_mem = 8"

definition CL_SUCCESS :: cl_int where
  "CL_SUCCESS = 0"

definition CL_DEVICE_NOT_FOUND :: cl_int where
  "CL_DEVICE_NOT_FOUND = - 1"

definition PRINT :: int where
  "PRINT = 1"

subsection \<open>The outside world\<close>

datatype devtype = CL_DEVICE_TYPE_GPU | CL_DEVICE_TYPE_CPU

datatype vec = V1 | V2 | V_OUT

datatype karg = ArgInt cint | ArgMem "cl_mem option"

text \<open>The calls the program makes, in the order it makes them.\<close>

datatype event =
    Malloc nat
  | Free
  | Fopen string
  | Perror string
  | ClockNow
  | PrintElapsed
  | GetPlatformIDs
  | GetDeviceIDs devtype
  | CreateContext
  | CreateProgramWithSource
  | BuildProgram
  | GetProgramBuildInfo
  | CreateCommandQueue
  | CreateKernel string
  | CreateBuffer nat
  | EnqueueWriteBuffer "cl_mem option" nat
  | SetKernelArg nat
  | EnqueueNDRangeKernel nat
  | WaitForEvents
  | EnqueueReadBuffer "cl_mem option" nat
  | ReleaseMemObject "cl_mem option"
  | ReleaseKernel
  | ReleaseCommandQueue
  | ReleaseProgram
  | ReleaseContext

record env =
  atoi :: "string \<Rightarrow> cint"
  malloc_ok :: "nat \<Rightarrow> bool"        \<comment> \<open>does the k-th \<open>malloc\<close> return a block\<close>
  junk :: "nat \<Rightarrow> cint"             \<comment> \<open>contents of memory nobody has written\<close>
  rand_seq :: "nat \<Rightarrow> cint"         \<comment> \<open>the k-th value of \<open>rand\<close> under the default seed\<close>
  platform_status :: cl_int
  gpu_status :: cl_int
  cpu_status :: cl_int
  context_status :: cl_int
  fopen_ok :: bool
  source_text :: string
  program_status :: cl_int
  build_status :: cl_int
  build_log :: string
  queue_status :: cl_int
  kernel_status :: cl_int
  buffer_ok :: "nat \<Rightarrow> bool"        \<comment> \<open>does the k-th \<open>clCreateBuffer\<close> return a handle\<close>
  write_status :: "nat \<Rightarrow> cl_int"    \<comment> \<open>by the buffer written\<close>
  setarg_status :: "nat \<Rightarrow> cl_int"   \<comment> \<open>by the argument index\<close>
  ndrange_status :: cl_int
  wait_status :: cl_int
  read_status :: cl_int

record buffer =
  bsize :: nat                       \<comment> \<open>size in bytes\<close>
  bdata :: "cint list"

subsection \<open>The program state\<close>

text \<open>
  The globals of the source, then the device memory, the bound kernel arguments, the
  dispatch that is enqueued and has not run yet (with the arguments and the global size it
  was enqueued with), standard output, the calls made so far and the counters of the calls
  whose answer comes from \<open>env\<close> by call number. A host pointer is \<open>None\<close> when it
  is null (or freed), and otherwise holds the block it points to.
\<close>

record state =
  SZ :: cint
  v1 :: "cint list option"
  v2 :: "cint list option"
  v_out :: "cint list option"
  bufV1 :: "cl_mem option"
  bufV2 :: "cl_mem option"
  bufV_out :: "cl_mem option"
  device_id :: "devtype option"
  cl_context :: bool
  program :: bool
  kernel :: bool
  queue :: bool
  cl_event :: bool
  err :: cl_int
  dev :: "cl_mem \<rightharpoonup> buffer"
  kargs :: "nat \<rightharpoonup> karg"
  pending :: "(cint \<times> cl_mem option \<times> cl_mem option \<times> cl_mem option \<times> nat) option"
  stdout :: string
  trace :: "event list"
  n_malloc :: nat
  n_rand :: nat
  n_buf :: nat

definition initial :: state where
  "initial = \<lparr> SZ = 100000000, v1 = None, v2 = None, v_out = None,
     bufV1 = None, bufV2 = None, bufV_out = None, device_id = None,
     cl_context = False, program = False, kernel = False, queue = False,
     cl_event = False, err = 0, dev = Map.empty, kargs = Map.empty,
     pending = None, stdout = [], trace = [], n_malloc = 0, n_rand = 0, n_buf = 0 \<rparr>"

text \<open>
  A call returns, or the process ends through \<open>exit\<close>, or it stores or loads through
  a pointer that holds no block (undefined behaviour in C, kept apart from \<open>exit\<close>).
\<close>

datatype 'a result = Returns 'a state | Exits int state | Crashes state

fun seq :: "(state \<Rightarrow> unit result) list \<Rightarrow> state \<Rightarrow> unit result" where
  "seq [] s = Returns () s"
| "seq (f # fs) s =
     (case f s of
        Returns u s' \<Rightarrow> seq fs s'
      | Exits c s' \<Rightarrow> Exits c s'
      | Crashes s' \<Rightarrow> Crashes s')"

definition log :: "event \<Rightarrow> state \<Rightarrow> state" where
  "log e s = s\<lparr>trace := trace s @ [e]\<rparr>"

definition printf :: "string \<Rightarrow> state \<Rightarrow> state" where
  "printf str s = s\<lparr>stdout := stdout s @ str\<rparr>"

definition perror :: "string \<Rightarrow> state \<Rightarrow> state" where
  "perror msg s = log (Perror msg) s"

fun get_vec :: "vec \<Rightarrow> state \<Rightarrow> cint list option" where
  "get_vec V1 s = v1 s"
| "get_vec V2 s = v2 s"
| "get_vec V_OUT s = v_out s"

fun set_vec :: "vec \<Rightarrow> cint list option \<Rightarrow> state \<Rightarrow> state" where
  "set_vec V1 p s = s\<lparr>v1 := p\<rparr>"
| "set_vec V2 p s = s\<lparr>v2 := p\<rparr>"
| "set_vec V_OUT p s = s\<lparr>v_out := p\<rparr>"

subsection \<open>The C library\<close>

text \<open>
  \<open>malloc\<close> of a number of bytes: the answer is the environment's, by call number.
  The caller gets whether a block was returned.
\<close>

definition c_malloc :: "env \<Rightarrow> size_t \<Rightarrow> state \<Rightarrow> bool \<times> state" where
  "c_malloc e bytes s =
     (malloc_ok e (n_malloc s),
      log (Malloc (unat bytes)) (s\<lparr>n_malloc := n_malloc s + 1\<rparr>))"

text \<open>A fresh block of \<open>int\<close>s of the given size in bytes: nobody has written it yet.\<close>

definition fresh_block :: "env \<Rightarrow> size_t \<Rightarrow> cint list" where
  "fresh_block e bytes = map (junk e) [0..<unat bytes div 4]"

text \<open>\<open>rand() % 100\<close>: the remainder of C truncates towards zero.\<close>

definition rand_mod_100 :: "env \<Rightarrow> nat \<Rightarrow> cint" where
  "rand_mod_100 e k = word_of_int (sint (rand_seq e k) smod 100)"

text \<open>The conversion \<open>%d\<close> of \<open>printf\<close>.\<close>

definition digit_char :: "nat \<Rightarrow> char" where
  "digit_char d = ''0123456789'' ! d"

function dec_digits :: "nat \<Rightarrow> string" where
  "dec_digits n =
     (if n < 10 then [digit_char n] else dec_digits (n div 10) @ [digit_char (n mod 10)])"
  by pat_completeness auto
termination
  by (relation "measure (\<lambda>n. n)") auto

definition fmt_d :: "cint \<Rightarrow> string" where
  "fmt_d x =
     (if sint x < 0 then CHR ''-'' # dec_digits (nat (- sint x)) else dec_digits (nat (sint x)))"

subsection \<open>init\<close>

text \<open>
  \<^verbatim>\<open>for (long i = 0; i < size; i++) A[i] = rand() % 100;\<close>
  The store goes through \<open>A\<close>: with \<open>A\<close> null, or \<open>i\<close> outside the block, it is a crash.
\<close>

function init_loop :: "env \<Rightarrow> vec \<Rightarrow> int \<Rightarrow> int \<Rightarrow> state \<Rightarrow> unit result" where
  "init_loop e A sz i s =
     (if i < sz then
        (let r = rand_mod_100 e (n_rand s);
             s1 = s\<lparr>n_rand := n_rand s + 1\<rparr>
         in case get_vec A s1 of
              None \<Rightarrow> Crashes s1
            | Some xs \<Rightarrow>
                if 0 \<le> i \<and> nat i < length xs
                then init_loop e A sz (i + 1) (set_vec A (Some (xs[nat i := r])) s1)
                else Crashes s1)
      else Returns () s)"
  by pat_completeness auto
termination
  by (relation "measure (\<lambda>(e, A, sz, i, s). nat (sz - i))") auto

definition init :: "env \<Rightarrow> vec \<Rightarrow> cint \<Rightarrow> state \<Rightarrow> unit result" where
  "init e A sz s =
     (let bytes = sizeof_int * scast sz;
          (ok, s1) = c_malloc e bytes s;
          s2 = set_vec A (if ok then Some (fresh_block e bytes) else None) s1
      in init_loop e A (sint sz) 0 s2)"

subsection \<open>print\<close>

text \<open>
  \<^verbatim>\<open>for (long i = lo; i < hi; i++) printf("%d ", A[i]);\<close>
  The three loops of \<open>print\<close> differ in their bounds only.
\<close>

function print_loop :: "cint list option \<Rightarrow> int \<Rightarrow> int \<Rightarrow> state \<Rightarrow> unit result" where
  "print_loop A i hi s =
     (if i < hi then
        (case A of
           None \<Rightarrow> Crashes s
         | Some xs \<Rightarrow>
             if 0 \<le> i \<and> nat i < length xs
             then print_loop A (i + 1) hi (printf (fmt_d (xs ! nat i) @ '' '') s)
             else Crashes s)
      else Returns () s)"
  by pat_completeness auto
termination
  by (relation "measure (\<lambda>(A, i, hi, s). nat (hi - i))") auto

definition separator :: string where
  "separator = [CHR 0x0A] @ ''----------------------------'' @ [CHR 0x0A]"

definition print :: "cint list option \<Rightarrow> cint \<Rightarrow> state \<Rightarrow> unit result" where
  "print A sz s =
     (if PRINT = 0 then Returns () s
      else
        (case (if PRINT = 1 \<and> 15 < sint sz
               then seq [print_loop A 0 5,
                         (\<lambda>s. Returns () (printf '' ..... '' s)),
                         print_loop A (sint sz - 5) (sint sz)] s
               else print_loop A 0 (sint sz) s) of
           Returns u s' \<Rightarrow> Returns () (printf separator s')
         | Exits c s' \<Rightarrow> Exits c s'
         | Crashes s' \<Rightarrow> Crashes s'))"

subsection \<open>The OpenCL runtime\<close>

text \<open>
  The calls of the OpenCL API the program makes, with the effect the OpenCL specification
  gives them on the device memory. A call succeeds when the environment's status for it
  is \<open>CL_SUCCESS\<close> and its arguments are valid; a call that fails changes nothing.
\<close>

definition CL_EXEC_STATUS_ERROR_FOR_EVENTS_IN_WAIT_LIST :: cl_int where
  "CL_EXEC_STATUS_ERROR_FOR_EVENTS_IN_WAIT_LIST = - 14"

definition CL_INVALID_VALUE :: cl_int where
  "CL_INVALID_VALUE = - 30"

definition CL_INVALID_MEM_OBJECT :: cl_int where
  "CL_INVALID_MEM_OBJECT = - 38"

definition CL_INVALID_KERNEL_ARGS :: cl_int where
  "CL_INVALID_KERNEL_ARGS = - 52"

definition CL_INVALID_EVENT :: cl_int where
  "CL_INVALID_EVENT = - 58"

definition ignore :: "'a result \<Rightarrow> unit result" where
  "ignore r = (case r of Returns x s \<Rightarrow> Returns () s | Exits c s \<Rightarrow> Exits c s | Crashes s \<Rightarrow> Crashes s)"

text \<open>
  \<open>clCreateBuffer(context, CL_MEM_READ_WRITE, bytes, NULL, NULL)\<close>: a null handle
  when the runtime refuses, or when the size is 0; otherwise a handle nobody holds yet,
  for a buffer of that size whose contents nobody has written.
\<close>

definition clCreateBuffer :: "env \<Rightarrow> size_t \<Rightarrow> state \<Rightarrow> cl_mem option \<times> state" where
  "clCreateBuffer e bytes s =
     (let k = n_buf s;
          s1 = log (CreateBuffer (unat bytes)) (s\<lparr>n_buf := k + 1\<rparr>)
      in if buffer_ok e k \<and> bytes \<noteq> 0
         then (Some k,
               s1\<lparr>dev := (dev s1)(k \<mapsto> \<lparr>bsize = unat bytes, bdata = fresh_block e bytes\<rparr>)\<rparr>)
         else (None, s1))"

text \<open>
  \<open>clEnqueueWriteBuffer(queue, buf, CL_TRUE, 0, bytes, ptr, 0, NULL, NULL)\<close>: the
  blocking copy of \<open>bytes\<close> bytes from the host block to the start of the buffer.
\<close>

definition clEnqueueWriteBuffer ::
  "env \<Rightarrow> cl_mem option \<Rightarrow> size_t \<Rightarrow> cint list option \<Rightarrow> state \<Rightarrow> cl_int result" where
  "clEnqueueWriteBuffer e buf bytes ptr s =
     (let s1 = log (EnqueueWriteBuffer buf (unat bytes)) s;
          n = unat bytes div 4
      in case buf of
           None \<Rightarrow> Returns CL_INVALID_MEM_OBJECT s1
         | Some h \<Rightarrow>
             (case dev s1 h of
                None \<Rightarrow> Returns CL_INVALID_MEM_OBJECT s1
              | Some b \<Rightarrow>
                  (case ptr of
                     None \<Rightarrow> Returns CL_INVALID_VALUE s1
                   | Some xs \<Rightarrow>
                       if bsize b < unat bytes then Returns CL_INVALID_VALUE s1
                       else if write_status e h \<noteq> CL_SUCCESS then Returns (write_status e h) s1
                       else if length xs < n then Crashes s1
                       else Returns CL_SUCCESS
                         (s1\<lparr>dev := (dev s1)(h \<mapsto> b\<lparr>bdata := take n xs @ drop n (bdata b)\<rparr>)\<rparr>))))"

text \<open>\<open>clSetKernelArg(kernel, idx, size, &value)\<close>.\<close>

definition clSetKernelArg :: "env \<Rightarrow> nat \<Rightarrow> size_t \<Rightarrow> karg \<Rightarrow> state \<Rightarrow> cl_int result" where
  "clSetKernelArg e idx bytes v s =
     (let s1 = log (SetKernelArg idx) s
      in if setarg_status e idx \<noteq> CL_SUCCESS then Returns (setarg_status e idx) s1
         else Returns CL_SUCCESS (s1\<lparr>kargs := (kargs s1)(idx \<mapsto> v)\<rparr>))"

text \<open>Loads and stores of a work-item through a buffer argument.\<close>

definition load :: "(cl_mem \<rightharpoonup> buffer) \<Rightarrow> cl_mem option \<Rightarrow> nat \<Rightarrow> cint option" where
  "load d p i =
     (case p of
        None \<Rightarrow> None
      | Some h \<Rightarrow>
          (case d h of
             None \<Rightarrow> None
           | Some b \<Rightarrow> if i < length (bdata b) then Some (bdata b ! i) else None))"

definition store ::
  "(cl_mem \<rightharpoonup> buffer) \<Rightarrow> cl_mem option \<Rightarrow> nat \<Rightarrow> cint \<Rightarrow> (cl_mem \<rightharpoonup> buffer) option" where
  "store d p i x =
     (case p of
        None \<Rightarrow> None
      | Some h \<Rightarrow>
          (case d h of
             None \<Rightarrow> None
           | Some b \<Rightarrow>
               if i < length (bdata b) then Some (d(h \<mapsto> b\<lparr>bdata := (bdata b)[i := x]\<rparr>))
               else None))"

text \<open>
  Modelled from the spec: the kernel \<open>vector_add_ocl\<close> of the file
  \<open>vector_ops_ocl.cl\<close>, which the host program compiles and is not among the sources.
  The spec gives it the parameters (size, two input buffers, one output buffer) and says
  it performs \<open>out[i] = v1[i] + v2[i]\<close> for each index: this is the work-item of
  global index \<open>gid\<close>. The addition is that of \<open>int\<close>. A work-item that reaches
  outside a buffer has no result.
\<close>

definition vector_add_ocl ::
  "cint \<Rightarrow> cl_mem option \<Rightarrow> cl_mem option \<Rightarrow> cl_mem option \<Rightarrow> nat \<Rightarrow>
     (cl_mem \<rightharpoonup> buffer) \<Rightarrow> (cl_mem \<rightharpoonup> buffer) option" where
  "vector_add_ocl n a b out gid d =
     (case load d a gid of
        None \<Rightarrow> None
      | Some x \<Rightarrow>
          (case load d b gid of
             None \<Rightarrow> None
           | Some y \<Rightarrow> store d out gid (x + y)))"

text \<open>The work-items of one dispatch, one after the other.\<close>

fun run_items ::
  "(nat \<Rightarrow> (cl_mem \<rightharpoonup> buffer) \<Rightarrow> (cl_mem \<rightharpoonup> buffer) option) \<Rightarrow> nat list \<Rightarrow>
     (cl_mem \<rightharpoonup> buffer) \<Rightarrow> (cl_mem \<rightharpoonup> buffer) option" where
  "run_items k [] d = Some d"
| "run_items k (i # is) d = (case k i d of None \<Rightarrow> None | Some d' \<Rightarrow> run_items k is d')"

text \<open>
  The four arguments of the kernel, when all are bound with the kinds the kernel takes: an
  \<open>int\<close> and three buffers.
\<close>

definition bound_args ::
  "(nat \<rightharpoonup> karg) \<Rightarrow> (cint \<times> cl_mem option \<times> cl_mem option \<times> cl_mem option) option" where
  "bound_args ka =
     (case ka 0 of
        Some (ArgInt n) \<Rightarrow>
          (case ka 1 of
             Some (ArgMem a) \<Rightarrow>
               (case ka 2 of
                  Some (ArgMem b) \<Rightarrow>
                    (case ka 3 of
                       Some (ArgMem out) \<Rightarrow> Some (n, a, b, out)
                     | _ \<Rightarrow> None)
                | _ \<Rightarrow> None)
           | _ \<Rightarrow> None)
      | _ \<Rightarrow> None)"

text \<open>
  \<open>clEnqueueNDRangeKernel(queue, kernel, 1, NULL, global, NULL, 0, NULL, &event)\<close>:
  on success the command is put on the queue, with the arguments bound at that moment and
  the global size, and the event is set. Nothing runs yet.
\<close>

definition clEnqueueNDRangeKernel :: "env \<Rightarrow> size_t \<Rightarrow> state \<Rightarrow> cl_int result" where
  "clEnqueueNDRangeKernel e global s =
     (let s1 = log (EnqueueNDRangeKernel (unat global)) s
      in if ndrange_status e \<noteq> CL_SUCCESS then Returns (ndrange_status e) s1
         else
           (case bound_args (kargs s1) of
              None \<Rightarrow> Returns CL_INVALID_KERNEL_ARGS s1
            | Some (n, a, b, out) \<Rightarrow>
                Returns CL_SUCCESS
                  (s1\<lparr>pending := Some (n, a, b, out, unat global), cl_event := True\<rparr>)))"

text \<open>
  The enqueued dispatch runs when the host next waits for it. How it ends is the
  environment's: \<open>clWaitForEvents\<close> returns
  \<open>CL_EXEC_STATUS_ERROR_FOR_EVENTS_IN_WAIT_LIST\<close> exactly when the command ended
  abnormally, and then none of the kernel's stores is taken as made. Otherwise the kernel
  runs once for each global index below the global size. The result is \<open>None\<close> when a
  work-item reaches outside a buffer.
\<close>

definition run_pending :: "env \<Rightarrow> state \<Rightarrow> state option" where
  "run_pending e s =
     (case pending s of
        None \<Rightarrow> Some s
      | Some (n, a, b, out, g) \<Rightarrow>
          if wait_status e = CL_EXEC_STATUS_ERROR_FOR_EVENTS_IN_WAIT_LIST
          then Some (s\<lparr>pending := None\<rparr>)
          else
            (case run_items (vector_add_ocl n a b out) [0..<g] (dev s) of
               None \<Rightarrow> None
             | Some d' \<Rightarrow> Some (s\<lparr>dev := d', pending := None\<rparr>)))"

text \<open>
  \<open>clWaitForEvents(1, &event)\<close>: with no event, an error at once; otherwise the host
  blocks until the dispatch has ended, and gets the status of the wait.
\<close>

definition clWaitForEvents :: "env \<Rightarrow> state \<Rightarrow> cl_int result" where
  "clWaitForEvents e s =
     (let s1 = log WaitForEvents s
      in if \<not> cl_event s1 then Returns CL_INVALID_EVENT s1
         else
           (case run_pending e s1 of
              None \<Rightarrow> Crashes s1
            | Some s2 \<Rightarrow> Returns (wait_status e) s2))"

text \<open>
  \<open>clEnqueueReadBuffer(queue, buf, CL_TRUE, 0, bytes, &A[0], 0, NULL, NULL)\<close>: the
  blocking copy of \<open>bytes\<close> bytes from the start of the buffer to the host block. The
  queue is in order, so a dispatch still on it has ended before the copy.
\<close>

definition clEnqueueReadBuffer ::
  "env \<Rightarrow> cl_mem option \<Rightarrow> size_t \<Rightarrow> vec \<Rightarrow> state \<Rightarrow> cl_int result" where
  "clEnqueueReadBuffer e buf bytes A s =
     (let s0 = log (EnqueueReadBuffer buf (unat bytes)) s;
          n = unat bytes div 4
      in case run_pending e s0 of
           None \<Rightarrow> Crashes s0
         | Some s1 \<Rightarrow>
             (case buf of
                None \<Rightarrow> Returns CL_INVALID_MEM_OBJECT s1
              | Some h \<Rightarrow>
                  (case dev s1 h of
                     None \<Rightarrow> Returns CL_INVALID_MEM_OBJECT s1
                   | Some b \<Rightarrow>
                       (case get_vec A s1 of
                          None \<Rightarrow> Returns CL_INVALID_VALUE s1
                        | Some xs \<Rightarrow>
                            if bsize b < unat bytes then Returns CL_INVALID_VALUE s1
                            else if read_status e \<noteq> CL_SUCCESS then Returns (read_status e) s1
                            else if length xs < n then Crashes s1
                            else Returns CL_SUCCESS
                              (set_vec A (Some (take n (bdata b) @ drop n xs)) s1)))))"

definition clReleaseMemObject :: "cl_mem option \<Rightarrow> state \<Rightarrow> cl_int result" where
  "clReleaseMemObject buf s =
     (let s1 = log (ReleaseMemObject buf) s
      in case buf of
           None \<Rightarrow> Returns CL_INVALID_MEM_OBJECT s1
         | Some h \<Rightarrow>
             (case dev s1 h of
                None \<Rightarrow> Returns CL_INVALID_MEM_OBJECT s1
              | Some b \<Rightarrow> Returns CL_SUCCESS (s1\<lparr>dev := (dev s1)(h := None)\<rparr>)))"

definition c_free :: "vec \<Rightarrow> state \<Rightarrow> unit result" where
  "c_free A s = Returns () (set_vec A None (log Free s))"

subsection \<open>create\_device\<close>

definition newline :: string where
  "newline = [CHR 0x0A]"

definition create_device :: "env \<Rightarrow> state \<Rightarrow> devtype result" where
  "create_device e s =
     (let err = platform_status e;
          s1 = log GetPlatformIDs s
      in if err < 0 then Exits 1 (perror ''Couldn't identify a platform'' s1)
         else
           (let err = gpu_status e;
                s2 = log (GetDeviceIDs CL_DEVICE_TYPE_GPU) s1;
                (err, d, s3) =
                  (if err = CL_DEVICE_NOT_FOUND
                   then (cpu_status e, CL_DEVICE_TYPE_CPU,
                         log (GetDeviceIDs CL_DEVICE_TYPE_CPU)
                           (printf (''GPU not found, using CPU'' @ newline) s2))
                   else (err, CL_DEVICE_TYPE_GPU, s2))
            in if err < 0 then Exits 1 (perror ''Couldn't access any devices'' s3)
               else Returns d s3))"

subsection \<open>build\_program\<close>

text \<open>
  The function has no \<open>err\<close> of its own: it assigns the global one. Neither
  \<open>malloc\<close> is checked, and the next statement stores through the pointer.
\<close>

definition build_program :: "env \<Rightarrow> string \<Rightarrow> state \<Rightarrow> bool result" where
  "build_program e filename s =
     (let s1 = log (Fopen filename) s
      in if \<not> fopen_ok e then Exits 1 (perror ''Couldn't find the program file'' s1)
         else
           (let program_size = (of_nat (length (source_text e)) :: size_t);
                (ok, s2) = c_malloc e (program_size + 1) s1
            in if \<not> ok then Crashes s2
               else
                 (let s3 = (log CreateProgramWithSource s2)\<lparr>err := program_status e\<rparr>
                  in if err s3 < 0 then Exits 1 (perror ''Couldn't create the program'' s3)
                     else
                       (let s4 = log Free s3;
                            s5 = (log BuildProgram s4)\<lparr>err := build_status e\<rparr>
                        in if err s5 < 0 then
                             (let s6 = log GetProgramBuildInfo s5;
                                  log_size = (of_nat (length (build_log e)) :: size_t);
                                  (ok, s7) = c_malloc e (log_size + 1) s6
                              in if \<not> ok then Crashes s7
                                 else Exits 1
                                   (log Free
                                     (printf (''Program Build Error ('' @ fmt_d (word_of_int (err s7))
                                        @ ''):'' @ newline @ build_log e @ newline)
                                       (log GetProgramBuildInfo s7))))
                           else Returns True s5))))"

subsection \<open>setup\_openCL\_device\_context\_queue\_kernel\<close>

text \<open>This function declares an \<open>err\<close> of its own, which hides the global one.\<close>

definition setup_openCL_device_context_queue_kernel ::
  "env \<Rightarrow> string \<Rightarrow> string \<Rightarrow> state \<Rightarrow> unit result" where
  "setup_openCL_device_context_queue_kernel e filename kernelname s =
     (case create_device e s of
        Exits c s' \<Rightarrow> Exits c s'
      | Crashes s' \<Rightarrow> Crashes s'
      | Returns d s0 \<Rightarrow>
          (let s1 = s0\<lparr>device_id := Some d\<rparr>;
               err = context_status e;
               s2 = (log CreateContext s1)\<lparr>cl_context := (err = CL_SUCCESS)\<rparr>
           in if err < 0 then Exits 1 (perror ''Couldn't create a context'' s2)
              else
                (case build_program e filename s2 of
                   Exits c s' \<Rightarrow> Exits c s'
                 | Crashes s' \<Rightarrow> Crashes s'
                 | Returns p s3 \<Rightarrow>
                     (let s4 = s3\<lparr>program := p\<rparr>;
                          err = queue_status e;
                          s5 = (log CreateCommandQueue s4)\<lparr>queue := (err = CL_SUCCESS)\<rparr>
                      in if err < 0 then Exits 1 (perror ''Couldn't create a command queue'' s5)
                         else
                           (let err = kernel_status e;
                                s6 = (log (CreateKernel kernelname) s5)\<lparr>kernel := (err = CL_SUCCESS)\<rparr>
                            in if err < 0
                               then Exits 1
                                 (printf (''error ='' @ fmt_d (word_of_int err))
                                   (perror ''Couldn't create a kernel'' s6))
                               else Returns () s6)))))"

subsection \<open>setup\_kernel\_memory\<close>

text \<open>\<open>SZ * sizeof(int)\<close>: \<open>SZ\<close> is converted to \<open>size_t\<close> and the product is taken there.\<close>

definition SZ_bytes :: "state \<Rightarrow> size_t" where
  "SZ_bytes s = scast (SZ s) * sizeof_int"

definition setup_kernel_memory_body :: "env \<Rightarrow> (state \<Rightarrow> unit result) list" where
  "setup_kernel_memory_body e =
     [\<lambda>s. let (h, s') = clCreateBuffer e (SZ_bytes s) s in Returns () (s'\<lparr>bufV1 := h\<rparr>),
      \<lambda>s. let (h, s') = clCreateBuffer e (SZ_bytes s) s in Returns () (s'\<lparr>bufV2 := h\<rparr>),
      \<lambda>s. let (h, s') = clCreateBuffer e (SZ_bytes s) s in Returns () (s'\<lparr>bufV_out := h\<rparr>),
      \<lambda>s. if bufV1 s = None \<or> bufV2 s = None \<or> bufV_out s = None
           then Exits 1 (perror ''Couldn't create a buffer'' s)
           else Returns () s,
      \<lambda>s. ignore (clEnqueueWriteBuffer e (bufV1 s) (SZ_bytes s) (v1 s) s),
      \<lambda>s. ignore (clEnqueueWriteBuffer e (bufV2 s) (SZ_bytes s) (v2 s) s)]"

definition setup_kernel_memory :: "env \<Rightarrow> state \<Rightarrow> unit result" where
  "setup_kernel_memory e = seq (setup_kernel_memory_body e)"

subsection \<open>copy\_kernel\_args\<close>

text \<open>
  The four statuses are dropped; the test reads the global \<open>err\<close>, which
  \<open>build_program\<close> assigned last.
\<close>

definition copy_kernel_args_body :: "env \<Rightarrow> (state \<Rightarrow> unit result) list" where
  "copy_kernel_args_body e =
     [\<lambda>s. ignore (clSetKernelArg e 0 sizeof_int (ArgInt (SZ s)) s),
      \<lambda>s. ignore (clSetKernelArg e 1 sizeof_cl_mem (ArgMem (bufV1 s)) s),
      \<lambda>s. ignore (clSetKernelArg e 2 sizeof_cl_mem (ArgMem (bufV2 s)) s),
      \<lambda>s. ignore (clSetKernelArg e 3 sizeof_cl_mem (ArgMem (bufV_out s)) s),
      \<lambda>s. if err s < 0
           then Exits 1
             (printf (''error = '' @ fmt_d (word_of_int (err s)))
               (perror ''Couldn't create a kernel argument'' s))
           else Returns () s]"

definition copy_kernel_args :: "env \<Rightarrow> state \<Rightarrow> unit result" where
  "copy_kernel_args e = seq (copy_kernel_args_body e)"

subsection \<open>free\_memory\<close>

definition free_memory_body :: "(state \<Rightarrow> unit result) list" where
  "free_memory_body =
     [\<lambda>s. ignore (clReleaseMemObject (bufV1 s) s),
      \<lambda>s. ignore (clReleaseMemObject (bufV2 s) s),
      \<lambda>s. ignore (clReleaseMemObject (bufV_out s) s),
      \<lambda>s. Returns () (log ReleaseKernel s),
      \<lambda>s. Returns () (log ReleaseCommandQueue s),
      \<lambda>s. Returns () (log ReleaseProgram s),
      \<lambda>s. Returns () (log ReleaseContext s),
      c_free V1,
      c_free V2,
      c_free V_OUT]"

definition free_memory :: "state \<Rightarrow> unit result" where
  "free_memory = seq free_memory_body"

subsection \<open>main\<close>

text \<open>
  The statements of \<open>main\<close>, in groups: the argument and the three \<open>init\<close>; with
  the two \<open>print\<close> and the set-up, all that comes before any device memory; the
  timed dispatch, wait and read-back; the report; the release. The local
  \<open>global[0]\<close> is \<open>(size_t)SZ\<close>, taken after the three \<open>init\<close>; \<open>SZ\<close> is not
  assigned after that, so the dispatch reads it from \<open>SZ\<close>.
\<close>

definition main_inits :: "env \<Rightarrow> string list \<Rightarrow> (state \<Rightarrow> unit result) list" where
  "main_inits e argv =
     [\<lambda>s. Returns () (if 1 < length argv then s\<lparr>SZ := atoi e (argv ! 1)\<rparr> else s),
      \<lambda>s. init e V1 (SZ s) s,
      \<lambda>s. init e V2 (SZ s) s,
      \<lambda>s. init e V_OUT (SZ s) s]"

definition main_host :: "env \<Rightarrow> string list \<Rightarrow> (state \<Rightarrow> unit result) list" where
  "main_host e argv =
     main_inits e argv @
     [\<lambda>s. print (v1 s) (SZ s) s,
      \<lambda>s. print (v2 s) (SZ s) s,
      setup_openCL_device_context_queue_kernel e ''./vector_ops_ocl.cl'' ''vector_add_ocl'']"

definition main_dispatch :: "env \<Rightarrow> (state \<Rightarrow> unit result) list" where
  "main_dispatch e =
     [\<lambda>s. Returns () (log ClockNow s),
      \<lambda>s. ignore (clEnqueueNDRangeKernel e (scast (SZ s)) s),
      \<lambda>s. ignore (clWaitForEvents e s),
      \<lambda>s. ignore (clEnqueueReadBuffer e (bufV_out s) (SZ_bytes s) V_OUT s)]"

definition main_to_readback :: "env \<Rightarrow> string list \<Rightarrow> (state \<Rightarrow> unit result) list" where
  "main_to_readback e argv =
     main_host e argv @ [setup_kernel_memory e, copy_kernel_args e] @ main_dispatch e"

definition main_report :: "(state \<Rightarrow> unit result) list" where
  "main_report =
     [\<lambda>s. print (v_out s) (SZ s) s,
      \<lambda>s. Returns () (log ClockNow s),
      \<lambda>s. Returns () (log PrintElapsed s)]"

definition main_after_readback :: "(state \<Rightarrow> unit result) list" where
  "main_after_readback = main_report @ [free_memory]"

definition main_body :: "env \<Rightarrow> string list \<Rightarrow> (state \<Rightarrow> unit result) list" where
  "main_body e argv = main_to_readback e argv @ main_after_readback"

definition main :: "env \<Rightarrow> string list \<Rightarrow> int result" where
  "main e argv =
     (case seq (main_body e argv) initial of
        Returns u s \<Rightarrow> Returns 0 s
      | Exits c s \<Rightarrow> Exits c s
      | Crashes s \<Rightarrow> Crashes s)"

text \<open>
  The same statements with the bodies of \<open>setup_kernel_memory\<close>,
  \<open>copy_kernel_args\<close> and \<open>free_memory\<close> written out, so that every point of the
  program from the first buffer creation on is a prefix of this list.
\<close>

definition main_flat :: "env \<Rightarrow> string list \<Rightarrow> (state \<Rightarrow> unit result) list" where
  "main_flat e argv =
     main_host e argv @ setup_kernel_memory_body e @ copy_kernel_args_body e @
     main_dispatch e @ main_report @ free_memory_body"

subsection \<open>Observing a run\<close>

definition state_of :: "'a result \<Rightarrow> state" where
  "state_of r = (case r of Returns x s \<Rightarrow> s | Exits c s \<Rightarrow> s | Crashes s \<Rightarrow> s)"

definition returned :: "'a result \<Rightarrow> state option" where
  "returned r = (case r of Returns x s \<Rightarrow> Some s | Exits c s \<Rightarrow> None | Crashes s \<Rightarrow> None)"

definition exit_code :: "'a result \<Rightarrow> int option" where
  "exit_code r = (case r of Returns x s \<Rightarrow> None | Exits c s \<Rightarrow> Some c | Crashes s \<Rightarrow> None)"

definition crashed :: "'a result \<Rightarrow> bool" where
  "crashed r = (case r of Returns x s \<Rightarrow> False | Exits c s \<Rightarrow> False | Crashes s \<Rightarrow> True)"

text \<open>What \<open>print\<close> writes for one element: \<^verbatim>\<open>printf("%d ", A[i])\<close>.\<close>

definition item :: "cint \<Rightarrow> string" where
  "item x = fmt_d x @ '' ''"

text \<open>The device types asked for, in the order of the requests.\<close>

fun device_requests :: "event list \<Rightarrow> devtype list" where
  "device_requests [] = []"
| "device_requests (GetDeviceIDs t # es) = t # device_requests es"
| "device_requests (x # es) = device_requests es"

text \<open>The contract of \<open>rand\<close>: a value between 0 and \<open>RAND_MAX\<close>.\<close>

definition rand_contract :: "env \<Rightarrow> bool" where
  "rand_contract e = (\<forall>k. 0 \<le> sint (rand_seq e k))"

text \<open>The elements \<open>init\<close> has assigned: the first \<open>SZ\<close> of the block, none without a block.\<close>

definition stored :: "vec \<Rightarrow> state \<Rightarrow> cint list" where
  "stored A s = (case get_vec A s of None \<Rightarrow> [] | Some xs \<Rightarrow> take (nat (sint (SZ s))) xs)"

subsection \<open>Environments for the examples\<close>

text \<open>Every call succeeds; \<open>rand\<close> gives 199, 42, 199, 42, ...; the argument reads as 3.\<close>

definition good_env :: env where
  "good_env = \<lparr> atoi = (\<lambda>a. 3), malloc_ok = (\<lambda>k. True), junk = (\<lambda>k. 0),
     rand_seq = (\<lambda>k. if k mod 2 = 0 then 199 else 42),
     platform_status = 0, gpu_status = 0, cpu_status = 0, context_status = 0,
     fopen_ok = True, source_text = ''k'', program_status = 0, build_status = 0,
     build_log = [], queue_status = 0, kernel_status = 0, buffer_ok = (\<lambda>k. True),
     write_status = (\<lambda>h. 0), setarg_status = (\<lambda>i. 0), ndrange_status = 0,
     wait_status = 0, read_status = 0 \<rparr>"

text \<open>As \<open>good_env\<close>, but no \<open>malloc\<close> returns a block.\<close>

definition no_memory_env :: env where
  "no_memory_env = good_env\<lparr>malloc_ok := (\<lambda>k. False)\<rparr>"

text \<open>
  As \<open>good_env\<close> for \<open>rand\<close>, but the platform has no GPU, the memory nobody has
  written holds something else, and the argument reads as 3 only by chance.
\<close>

definition other_env :: env where
  "other_env = good_env\<lparr>gpu_status := CL_DEVICE_NOT_FOUND, junk := (\<lambda>k. 7),
     source_text := ''other'', atoi := (\<lambda>a. if a = ''3'' then 3 else 5)\<rparr>"

text \<open>As \<open>good_env\<close>, but every \<open>clSetKernelArg\<close> fails with \<open>CL_INVALID_KERNEL\<close>.\<close>

definition bind_fail_env :: env where
  "bind_fail_env = good_env\<lparr>setarg_status := (\<lambda>i. - 48)\<rparr>"

text \<open>As \<open>good_env\<close>, but there is no device at all.\<close>

definition no_device_env :: env where
  "no_device_env = good_env\<lparr>gpu_status := CL_DEVICE_NOT_FOUND, cpu_status := CL_DEVICE_NOT_FOUND\<rparr>"

text \<open>As \<open>good_env\<close>, but the kernel source file cannot be opened.\<close>

definition no_file_env :: env where
  "no_file_env = good_env\<lparr>fopen_ok := False\<rparr>"

text \<open>The calls made after the first reading of the clock and before the next one.\<close>

definition between_clocks :: "event list \<Rightarrow> event list" where
  "between_clocks es =
     takeWhile (\<lambda>x. x \<noteq> ClockNow) (drop 1 (dropWhile (\<lambda>x. x \<noteq> ClockNow) es))"

text \<open>
  The calls that come before any device memory exists: host allocation, the file, and the
  creation of device, context, program, queue and kernel.
\<close>

fun setup_event :: "event \<Rightarrow> bool" where
  "setup_event (Malloc n) = True"
| "setup_event Free = True"
| "setup_event (Fopen f) = True"
| "setup_event (Perror m) = True"
| "setup_event GetPlatformIDs = True"
| "setup_event (GetDeviceIDs t) = True"
| "setup_event CreateContext = True"
| "setup_event CreateProgramWithSource = True"
| "setup_event BuildProgram = True"
| "setup_event GetProgramBuildInfo = True"
| "setup_event CreateCommandQueue = True"
| "setup_event (CreateKernel k) = True"
| "setup_event x = False"

text \<open>Two states with the same vectors, buffers, device memory and bound arguments.\<close>

definition same_memory :: "state \<Rightarrow> state \<Rightarrow> bool" where
  "same_memory s s' \<longleftrightarrow>
     SZ s' = SZ s \<and> v1 s' = v1 s \<and> v2 s' = v2 s \<and> v_out s' = v_out s \<and>
     bufV1 s' = bufV1 s \<and> bufV2 s' = bufV2 s \<and> bufV_out s' = bufV_out s \<and>
     dev s' = dev s \<and> kargs s' = kargs s \<and> n_buf s' = n_buf s \<and> n_rand s' = n_rand s"

text \<open>Every buffer of the device memory has the byte size \<open>SZ * sizeof(int)\<close>.\<close>

definition buffers_sized :: "state \<Rightarrow> bool" where
  "buffers_sized s \<longleftrightarrow> (\<forall>h b. dev s h = Some b \<longrightarrow> bsize b = unat (SZ_bytes s))"

text \<open>The sizes given to \<open>clCreateBuffer\<close>, in the order of the calls.\<close>

fun created_sizes :: "event list \<Rightarrow> nat list" where
  "created_sizes [] = []"
| "created_sizes (CreateBuffer n # es) = n # created_sizes es"
| "created_sizes (x # es) = created_sizes es"

text \<open>
  The invariant of the buffer sizes: every buffer in the device memory, and every size
  given to \<open>clCreateBuffer\<close> so far, is \<open>SZ * sizeof(int)\<close>.
\<close>

definition sizes_inv :: "state \<Rightarrow> bool" where
  "sizes_inv s \<longleftrightarrow>
     buffers_sized s \<and> list_all (\<lambda>n. n = unat (SZ_bytes s)) (created_sizes (trace s))"

text \<open>A statement that keeps \<open>SZ\<close> and the invariant, however it ends.\<close>

definition keeps_sizes :: "(state \<Rightarrow> unit result) \<Rightarrow> bool" where
  "keeps_sizes f \<longleftrightarrow>
     (\<forall>s. SZ (state_of (f s)) = SZ s \<and> (sizes_inv s \<longrightarrow> sizes_inv (state_of (f s))))"

text \<open>As \<open>good_env\<close>, but the dispatch fails with \<open>CL_OUT_OF_RESOURCES\<close>.\<close>

definition dispatch_fail_env :: env where
  "dispatch_fail_env = good_env\<lparr>ndrange_status := - 5\<rparr>"

text \<open>
  As \<open>good_env\<close>, but the kernel ends abnormally: the wait returns
  \<open>CL_EXEC_STATUS_ERROR_FOR_EVENTS_IN_WAIT_LIST\<close>.
\<close>

definition abnormal_end_env :: env where
  "abnormal_end_env = good_env\<lparr>wait_status := - 14\<rparr>"

text \<open>How a run ended, and the vector length, the host vectors and the calls at that point.\<close>

definition run_summary ::
  "'a result \<Rightarrow>
     (int option \<times> bool) \<times> cint \<times> cint list option \<times> cint list option \<times> cint list option
       \<times> event list" where
  "run_summary r =
     (case r of
        Returns x s \<Rightarrow> ((None, False), SZ s, v1 s, v2 s, v_out s, trace s)
      | Exits c s \<Rightarrow> ((Some c, False), SZ s, v1 s, v2 s, v_out s, trace s)
      | Crashes s \<Rightarrow> ((None, True), SZ s, v1 s, v2 s, v_out s, trace s))"

section \<open>Properties\<close>

text \<open>
  The loops are unfolded one step at a time, by the lemmas below, and not by the
  simplifier.
\<close>

declare init_loop.simps [simp del]
declare print_loop.simps [simp del]
declare dec_digits.simps [simp del]

subsection \<open>Sequences of statements\<close>

lemma seq_append:
  "seq (fs @ gs) s =
     (case seq fs s of
        Returns u s' \<Rightarrow> seq gs s'
      | Exits c s' \<Rightarrow> Exits c s'
      | Crashes s' \<Rightarrow> Crashes s')"
  by (induction fs arbitrary: s) (auto split: result.splits)

lemma seq_Cons_Returns:
  "seq (f # fs) s = Returns u s'' \<longleftrightarrow> (\<exists>s'. f s = Returns () s' \<and> seq fs s' = Returns u s'')"
  by (auto split: result.splits)

lemma seq_append_Returns:
  "seq (fs @ gs) s = Returns u s'' \<longleftrightarrow>
     (\<exists>s'. seq fs s = Returns () s' \<and> seq gs s' = Returns u s'')"
  by (auto simp: seq_append split: result.splits)

lemma seq_preserves:
  assumes "\<And>f s. f \<in> set fs \<Longrightarrow> P s \<Longrightarrow> P (state_of (f s))" and "P s"
  shows "P (state_of (seq fs s))"
  using assms
proof (induction fs arbitrary: s)
  case Nil
  then show ?case by (simp add: state_of_def)
next
  case (Cons f fs)
  have step: "P (state_of (f s))" using Cons.prems by simp
  show ?case
  proof (cases "f s")
    case (Returns u s')
    then have "P s'" using step by (simp add: state_of_def)
    then have "P (state_of (seq fs s'))" using Cons.IH Cons.prems(1) by simp
    then show ?thesis using Returns by simp
  next
    case (Exits c s')
    then show ?thesis using step by (simp add: state_of_def)
  next
    case (Crashes s')
    then show ?thesis using step by (simp add: state_of_def)
  qed
qed

subsection \<open>Machine integers\<close>

lemma sint_cint_bounds: "- 2147483648 \<le> sint (w::cint)" "sint (w::cint) < 2147483648"
  using sint_ge [of w] sint_lt [of w] by simp_all

lemma unat_scast_nonneg:
  assumes "0 \<le> sint (w::cint)"
  shows "unat (scast w :: size_t) = nat (sint w)"
proof -
  have b: "sint w < 2147483648" by (rule sint_cint_bounds)
  have "uint (scast w :: size_t) = uint (word_of_int (sint w) :: size_t)"
    by (simp only: scast_eq)
  also have "\<dots> = sint w mod 2 ^ 64"
    by (simp only: uint_word_of_int) simp
  also have "\<dots> = sint w" using assms b by simp
  finally show ?thesis by (simp add: unat_eq_nat_uint)
qed

lemma unat_scast_times_4:
  assumes "0 \<le> sint (w::cint)"
  shows "unat (scast w * 4 :: size_t) = 4 * nat (sint w)"
proof -
  have b: "sint w < 2147483648" by (rule sint_cint_bounds)
  have "unat (scast w * 4 :: size_t) = (unat (scast w :: size_t) * 4) mod 2 ^ 64"
    by (simp add: unat_word_ariths)
  also have "\<dots> = (nat (sint w) * 4) mod 2 ^ 64"
    by (simp add: unat_scast_nonneg [OF assms])
  also have "\<dots> = nat (sint w) * 4" using assms b by simp
  finally show ?thesis by simp
qed

lemma sint_smod_100:
  assumes "0 \<le> sint (r::cint)"
  shows "sint (word_of_int (sint r smod 100) :: cint) = sint r mod 100"
proof -
  have e: "sint r smod 100 = sint r mod 100"
    using assms by (simp add: smod_int_alt_def sgn_if)
  have "0 \<le> sint r mod 100" "sint r mod 100 < 100" by simp_all
  then have "signed_take_bit 31 (sint r mod 100) = sint r mod 100"
    by (intro signed_take_bit_int_eq_self) simp_all
  then show ?thesis by (simp add: e sint_sbintrunc')
qed

subsection \<open>init\<close>

lemma get_set_vec [simp]: "get_vec A (set_vec A p s) = p"
  by (cases A) simp_all

lemma set_set_vec [simp]: "set_vec A p (set_vec A q s) = set_vec A p s"
  by (cases A) simp_all

lemma n_rand_set_vec [simp]: "n_rand (set_vec A p s) = n_rand s"
  by (cases A) simp_all

lemma trace_set_vec [simp]: "trace (set_vec A p s) = trace s"
  by (cases A) simp_all

lemma get_vec_n_rand [simp]: "get_vec A (s\<lparr>n_rand := k\<rparr>) = get_vec A s"
  by (cases A) simp_all

lemma set_vec_n_rand: "set_vec A p (s\<lparr>n_rand := k\<rparr>) = (set_vec A p s)\<lparr>n_rand := k\<rparr>"
  by (cases A) simp_all

lemma init_loop_step:
  assumes "i < sz" "get_vec A s = Some xs" "0 \<le> i" "nat i < length xs"
  shows "init_loop e A sz i s =
     init_loop e A sz (i + 1)
       (set_vec A (Some (xs[nat i := rand_mod_100 e (n_rand s)])) (s\<lparr>n_rand := n_rand s + 1\<rparr>))"
  using assms by (subst init_loop.simps) (simp add: Let_def)

lemma init_loop_stop: "\<not> i < sz \<Longrightarrow> init_loop e A sz i s = Returns () s"
  by (subst init_loop.simps) simp

lemma init_loop_crash:
  assumes "i < sz" "get_vec A s = None \<or> (\<exists>xs. get_vec A s = Some xs \<and> \<not> (0 \<le> i \<and> nat i < length xs))"
  shows "init_loop e A sz i s = Crashes (s\<lparr>n_rand := n_rand s + 1\<rparr>)"
  using assms by (subst init_loop.simps) (auto simp: Let_def)

lemma init_loop_trace: "trace (state_of (init_loop e A sz i s)) = trace s"
proof (induction e A sz i s rule: init_loop.induct)
  case (1 e A sz i s)
  show ?case
  proof (cases "i < sz")
    case False
    then show ?thesis by (simp add: init_loop_stop state_of_def)
  next
    case True
    show ?thesis
    proof (cases "\<exists>xs. get_vec A s = Some xs \<and> 0 \<le> i \<and> nat i < length xs")
      case False
      then have "init_loop e A sz i s = Crashes (s\<lparr>n_rand := n_rand s + 1\<rparr>)"
        using True by (intro init_loop_crash) auto
      then show ?thesis by (simp add: state_of_def)
    next
      case ex: True
      then obtain xs where xs: "get_vec A s = Some xs" "0 \<le> i" "nat i < length xs" by blast
      have "trace (state_of (init_loop e A sz (i + 1)
              (set_vec A (Some (xs[nat i := rand_mod_100 e (n_rand s)])) (s\<lparr>n_rand := n_rand s + 1\<rparr>))))
            = trace (set_vec A (Some (xs[nat i := rand_mod_100 e (n_rand s)])) (s\<lparr>n_rand := n_rand s + 1\<rparr>))"
        using xs by (intro "1.IH" [OF True refl refl]) simp_all
      then show ?thesis using init_loop_step [OF True xs] by simp
    qed
  qed
qed

lemma init_loop_closed:
  assumes "get_vec A s = Some xs" "0 \<le> i" "i \<le> sz" "nat sz \<le> length xs"
  shows "init_loop e A sz i s =
    Returns () ((set_vec A (Some (take (nat i) xs
       @ map (\<lambda>j. rand_mod_100 e (n_rand s + j)) [0..<nat (sz - i)]
       @ drop (nat sz) xs)) s)\<lparr>n_rand := n_rand s + nat (sz - i)\<rparr>)"
  using assms
proof (induction e A sz i s arbitrary: xs rule: init_loop.induct)
  case (1 e A sz i s)
  show ?case
  proof (cases "i < sz")
    case False
    then have "i = sz" using "1.prems" by simp
    then show ?thesis using "1.prems"
      by (cases A) (simp_all add: init_loop_stop)
  next
    case True
    let ?r = "rand_mod_100 e (n_rand s)"
    let ?s1 = "s\<lparr>n_rand := n_rand s + 1\<rparr>"
    let ?xs = "xs[nat i := ?r]"
    let ?s2 = "set_vec A (Some ?xs) ?s1"
    have lt: "nat i < length xs" using True "1.prems" by linarith
    have IH: "init_loop e A sz (i + 1) ?s2 =
      Returns () ((set_vec A (Some (take (nat (i + 1)) ?xs
         @ map (\<lambda>j. rand_mod_100 e (n_rand ?s2 + j)) [0..<nat (sz - (i + 1))]
         @ drop (nat sz) ?xs)) ?s2)\<lparr>n_rand := n_rand ?s2 + nat (sz - (i + 1))\<rparr>)"
      using True "1.prems" lt
      by (intro "1.IH" [OF True refl refl, where ?x2.0 = xs]) simp_all
    have a: "take (nat (i + 1)) ?xs = take (nat i) xs @ [?r]"
      using lt "1.prems" by (simp add: nat_add_distrib take_Suc_conv_app_nth)
    have b: "drop (nat sz) ?xs = drop (nat sz) xs"
      using True "1.prems" by simp
    have c: "[0..<nat (sz - i)] = 0 # map Suc [0..<nat (sz - (i + 1))]"
    proof -
      have "nat (sz - i) = Suc (nat (sz - (i + 1)))" using True by simp
      then show ?thesis by (simp add: upt_conv_Cons map_Suc_upt del: upt_Suc)
    qed
    have d: "Suc (n_rand s + nat (sz - (i + 1))) = n_rand s + nat (sz - i)"
      using True by simp
    have "init_loop e A sz i s = init_loop e A sz (i + 1) ?s2"
      using True "1.prems" lt by (intro init_loop_step) simp_all
    also have "\<dots> = Returns () ((set_vec A (Some (take (nat i) xs
       @ map (\<lambda>j. rand_mod_100 e (n_rand s + j)) [0..<nat (sz - i)]
       @ drop (nat sz) xs)) s)\<lparr>n_rand := n_rand s + nat (sz - i)\<rparr>)"
      unfolding IH a b c
      by (simp add: comp_def set_vec_n_rand d del: upt_Suc)
    finally show ?thesis .
  qed
qed

lemma unat_sizeof_int_times:
  "0 \<le> sint (w::cint) \<Longrightarrow> unat (sizeof_int * scast w :: size_t) = 4 * nat (sint w)"
  using unat_scast_times_4 [of w] by (simp add: sizeof_int_def mult.commute)

lemma length_fresh_block:
  "0 \<le> sint (w::cint) \<Longrightarrow> length (fresh_block e (sizeof_int * scast w)) = nat (sint w)"
  by (simp add: fresh_block_def unat_sizeof_int_times)

lemma init_cases:
  "init e A sz s =
     (let bytes = sizeof_int * scast sz;
          s1 = log (Malloc (unat bytes)) (s\<lparr>n_malloc := n_malloc s + 1\<rparr>)
      in if malloc_ok e (n_malloc s) then
           if 0 \<le> sint sz
           then Returns ()
             ((set_vec A (Some (map (\<lambda>j. rand_mod_100 e (n_rand s + j)) [0..<nat (sint sz)])) s1)
                \<lparr>n_rand := n_rand s + nat (sint sz)\<rparr>)
           else Returns () (set_vec A (Some (fresh_block e bytes)) s1)
         else if 0 < sint sz then Crashes ((set_vec A None s1)\<lparr>n_rand := n_rand s + 1\<rparr>)
         else Returns () (set_vec A None s1))"
proof -
  let ?bytes = "sizeof_int * scast sz :: size_t"
  let ?s1 = "log (Malloc (unat ?bytes)) (s\<lparr>n_malloc := n_malloc s + 1\<rparr>)"
  have nr: "n_rand ?s1 = n_rand s" by (simp add: log_def)
  show ?thesis
  proof (cases "malloc_ok e (n_malloc s)")
    case True
    let ?s2 = "set_vec A (Some (fresh_block e ?bytes)) ?s1"
    have i: "init e A sz s = init_loop e A (sint sz) 0 ?s2"
      using True by (simp add: init_def c_malloc_def Let_def)
    show ?thesis
    proof (cases "0 \<le> sint sz")
      case False
      then show ?thesis using True i by (simp add: init_loop_stop Let_def)
    next
      case nn: True
      have "init_loop e A (sint sz) 0 ?s2 =
        Returns () ((set_vec A (Some (take (nat 0) (fresh_block e ?bytes)
           @ map (\<lambda>j. rand_mod_100 e (n_rand ?s2 + j)) [0..<nat (sint sz - 0)]
           @ drop (nat (sint sz)) (fresh_block e ?bytes))) ?s2)\<lparr>n_rand := n_rand ?s2 + nat (sint sz - 0)\<rparr>)"
        using nn by (intro init_loop_closed) (simp_all add: length_fresh_block)
      then show ?thesis using True nn i by (simp add: Let_def length_fresh_block log_def)
    qed
  next
    case False
    let ?s2 = "set_vec A None ?s1"
    have i: "init e A sz s = init_loop e A (sint sz) 0 ?s2"
      using False by (simp add: init_def c_malloc_def Let_def)
    show ?thesis
    proof (cases "0 < sint sz")
      case True
      then have "init_loop e A (sint sz) 0 ?s2 = Crashes (?s2\<lparr>n_rand := n_rand ?s2 + 1\<rparr>)"
        by (intro init_loop_crash) simp_all
      then show ?thesis using True False i by (simp add: Let_def log_def)
    next
      case nn: False
      then show ?thesis using False i by (simp add: init_loop_stop Let_def)
    qed
  qed
qed

lemma sint_rand_mod_100:
  assumes "rand_contract e"
  shows "0 \<le> sint (rand_mod_100 e k)" "sint (rand_mod_100 e k) \<le> 99"
proof -
  have "0 \<le> sint (rand_seq e k)" using assms by (simp add: rand_contract_def)
  then have "sint (rand_mod_100 e k) = sint (rand_seq e k) mod 100"
    unfolding rand_mod_100_def by (rule sint_smod_100)
  moreover have "0 \<le> sint (rand_seq e k) mod 100" "sint (rand_seq e k) mod 100 < 100"
    by simp_all
  ultimately show "0 \<le> sint (rand_mod_100 e k)" "sint (rand_mod_100 e k) \<le> 99"
    by simp_all
qed

lemma rand_contract_good_env: "rand_contract good_env"
  by (simp add: rand_contract_def good_env_def)

text \<open>
  Claim C4, as amended. When \<open>init\<close> returns for a length of at least 1, the pointer holds a
  block of that length and every element \<open>i\<close> of it satisfies \<open>0 \<le> A[i] \<le> 99\<close>: the
  values are \<open>rand() % 100\<close>, and \<open>rand\<close> returns no negative number. The bound 99
  itself is reached (the claim's \<open>A[i] < 99\<close> fails when \<open>rand\<close> returns 199).
\<close>

theorem init_range:
  assumes "rand_contract e" and "1 \<le> sint sz" and "init e A sz s = Returns () s'"
  shows "\<exists>xs. get_vec A s' = Some xs \<and> length xs = nat (sint sz)
           \<and> (\<forall>i<nat (sint sz). 0 \<le> sint (xs ! i) \<and> sint (xs ! i) \<le> 99)"
proof -
  let ?xs = "map (\<lambda>j. rand_mod_100 e (n_rand s + j)) [0..<nat (sint sz)]"
  have "get_vec A s' = Some ?xs"
    using assms(2,3) by (auto simp: init_cases Let_def split: if_splits)
  moreover have "\<forall>i<nat (sint sz). 0 \<le> sint (?xs ! i) \<and> sint (?xs ! i) \<le> 99"
    using sint_rand_mod_100 [OF assms(1)] by simp
  ultimately show ?thesis by simp
qed

theorem init_range_witness:
  "rand_contract good_env \<and> 1 \<le> sint (2 :: cint)
     \<and> (\<exists>s'. init good_env V1 2 initial = Returns () s'
           \<and> (\<exists>xs. get_vec V1 s' = Some xs \<and> length xs = nat (sint (2 :: cint))
                 \<and> (\<forall>i<nat (sint (2 :: cint)). 0 \<le> sint (xs ! i) \<and> sint (xs ! i) \<le> 99)))"
proof -
  have m: "malloc_ok good_env (n_malloc initial)" by (simp add: good_env_def)
  obtain s' where r: "init good_env V1 2 initial = Returns () s'"
    using m by (simp add: init_cases Let_def)
  have two: "1 \<le> sint (2 :: cint)" by simp
  show ?thesis
    using init_range [OF rand_contract_good_env two r] rand_contract_good_env r two by blast
qed

theorem init_range_counterexample:
  "map_option v1 (returned (init good_env V1 1 initial)) = Some (Some [99])
     \<and> \<not> sint (99 :: cint) < 99"
  by (simp add: init_cases Let_def returned_def good_env_def rand_mod_100_def log_def initial_def)

text \<open>
  Claim C5, as amended. \<open>init\<close> does not test what \<open>malloc\<close> returned. When the
  allocation fails, \<open>init\<close> never ends the process through \<open>exit\<close>: for a length of
  at least 1 it goes on to the first store \<open>A[0] = rand() % 100\<close> through the null
  pointer, and for a length of 0 or less it returns with \<open>A\<close> null, having stored
  nothing.
\<close>

theorem init_allocation_failure:
  assumes "\<not> malloc_ok e (n_malloc s)"
  shows "exit_code (init e A sz s) = None
     \<and> (0 < sint sz \<longrightarrow> crashed (init e A sz s))
     \<and> (sint sz \<le> 0 \<longrightarrow> (\<exists>s'. init e A sz s = Returns () s' \<and> get_vec A s' = None))"
  using assms by (simp add: init_cases Let_def exit_code_def crashed_def)

theorem init_allocation_failure_witness:
  "\<not> malloc_ok no_memory_env (n_malloc initial)
     \<and> exit_code (init no_memory_env V1 1 initial) = None
     \<and> crashed (init no_memory_env V1 1 initial)"
  using init_allocation_failure [of no_memory_env initial V1 1]
  by (simp add: no_memory_env_def)

theorem init_allocation_failure_counterexample:
  "crashed (init no_memory_env V1 1 initial)
     \<and> exit_code (init no_memory_env V1 1 initial) = None"
  by (simp add: init_cases Let_def exit_code_def crashed_def no_memory_env_def)

lemma Returns_state_of:
  "exit_code r = None \<Longrightarrow> \<not> crashed r \<Longrightarrow> (r :: unit result) = Returns () (state_of r)"
  by (cases r) (simp_all add: exit_code_def crashed_def state_of_def)

lemma good_env_inits:
  "exit_code (seq (main_inits good_env [''add'', ''3'']) initial) = None"
  "\<not> crashed (seq (main_inits good_env [''add'', ''3'']) initial)"
  "SZ (state_of (seq (main_inits good_env [''add'', ''3'']) initial)) = 3"
  "stored V1 (state_of (seq (main_inits good_env [''add'', ''3'']) initial)) = [99, 42, 99]"
  "stored V2 (state_of (seq (main_inits good_env [''add'', ''3'']) initial)) = [42, 99, 42]"
  "stored V_OUT (state_of (seq (main_inits good_env [''add'', ''3'']) initial)) = [99, 42, 99]"
  by code_simp+

lemma other_env_inits:
  "exit_code (seq (main_inits other_env [''sum'', ''3'']) initial) = None"
  "\<not> crashed (seq (main_inits other_env [''sum'', ''3'']) initial)"
  "SZ (state_of (seq (main_inits other_env [''sum'', ''3'']) initial)) = 3"
  by code_simp+

lemma inits_stored:
  assumes "seq (main_inits e argv) initial = Returns () s"
  shows "stored V1 s = map (\<lambda>j. rand_mod_100 e j) [0..<nat (sint (SZ s))]
     \<and> stored V2 s = map (\<lambda>j. rand_mod_100 e (nat (sint (SZ s)) + j)) [0..<nat (sint (SZ s))]
     \<and> stored V_OUT s = map (\<lambda>j. rand_mod_100 e (2 * nat (sint (SZ s)) + j)) [0..<nat (sint (SZ s))]"
proof -
  let ?s0 = "if 1 < length argv then initial\<lparr>SZ := atoi e (argv ! 1)\<rparr> else initial"
  from assms obtain sa sb where
    a: "init e V1 (SZ ?s0) ?s0 = Returns () sa" and
    b: "init e V2 (SZ sa) sa = Returns () sb" and
    c: "init e V_OUT (SZ sb) sb = Returns () s"
    unfolding main_inits_def by (auto simp add: seq_Cons_Returns simp del: seq.simps(2))
  have n0: "n_rand ?s0 = 0" by (simp add: initial_def)
  have sa: "SZ sa = SZ ?s0" "n_rand sa = nat (sint (SZ ?s0))"
     "stored V1 sa = map (\<lambda>j. rand_mod_100 e j) [0..<nat (sint (SZ ?s0))]"
    using a n0 by (auto simp: init_cases Let_def log_def stored_def split: if_splits option.splits)
  have sb: "SZ sb = SZ sa" "n_rand sb = n_rand sa + nat (sint (SZ sa))"
     "stored V1 sb = stored V1 sa"
     "stored V2 sb = map (\<lambda>j. rand_mod_100 e (n_rand sa + j)) [0..<nat (sint (SZ sa))]"
    using b by (auto simp: init_cases Let_def log_def stored_def split: if_splits option.splits)
  have sc: "SZ s = SZ sb"
     "stored V1 s = stored V1 sb" "stored V2 s = stored V2 sb"
     "stored V_OUT s = map (\<lambda>j. rand_mod_100 e (n_rand sb + j)) [0..<nat (sint (SZ sb))]"
    using c by (auto simp: init_cases Let_def log_def stored_def split: if_splits option.splits)
  show ?thesis using sa sb sc by (simp add: mult_2)
qed

text \<open>
  Claim C10. The model has no call that seeds the generator: the number of values drawn
  starts at 0 and only \<open>init\<close> draws. So for two runs that see the same sequence of
  \<open>rand\<close> (that of the default seed) and have the same vector length, whatever else
  differs between them (arguments, allocation, device, statuses), the values \<open>init\<close>
  stores into \<open>v1\<close>, \<open>v2\<close> and \<open>v_out\<close> are the same.
\<close>

theorem init_deterministic:
  assumes "rand_seq e1 = rand_seq e2"
    and "seq (main_inits e1 argv1) initial = Returns () s1"
    and "seq (main_inits e2 argv2) initial = Returns () s2"
    and "SZ s1 = SZ s2"
  shows "stored V1 s1 = stored V1 s2 \<and> stored V2 s1 = stored V2 s2
     \<and> stored V_OUT s1 = stored V_OUT s2"
proof -
  have "rand_mod_100 e1 = rand_mod_100 e2"
    using assms(1) by (simp add: rand_mod_100_def fun_eq_iff)
  then show ?thesis
    using inits_stored [OF assms(2)] inits_stored [OF assms(3)] assms(4) by simp
qed

theorem init_deterministic_witness:
  "rand_seq good_env = rand_seq other_env
   \<and> seq (main_inits good_env [''add'', ''3'']) initial
       = Returns () (state_of (seq (main_inits good_env [''add'', ''3'']) initial))
   \<and> seq (main_inits other_env [''sum'', ''3'']) initial
       = Returns () (state_of (seq (main_inits other_env [''sum'', ''3'']) initial))
   \<and> SZ (state_of (seq (main_inits good_env [''add'', ''3'']) initial))
       = SZ (state_of (seq (main_inits other_env [''sum'', ''3'']) initial))
   \<and> stored V1 (state_of (seq (main_inits good_env [''add'', ''3'']) initial))
       = stored V1 (state_of (seq (main_inits other_env [''sum'', ''3'']) initial))
   \<and> stored V2 (state_of (seq (main_inits good_env [''add'', ''3'']) initial))
       = stored V2 (state_of (seq (main_inits other_env [''sum'', ''3'']) initial))
   \<and> stored V_OUT (state_of (seq (main_inits good_env [''add'', ''3'']) initial))
       = stored V_OUT (state_of (seq (main_inits other_env [''sum'', ''3'']) initial))
   \<and> stored V1 (state_of (seq (main_inits good_env [''add'', ''3'']) initial)) = [99, 42, 99]
   \<and> stored V2 (state_of (seq (main_inits good_env [''add'', ''3'']) initial)) = [42, 99, 42]
   \<and> stored V_OUT (state_of (seq (main_inits good_env [''add'', ''3'']) initial)) = [99, 42, 99]"
proof -
  have r: "rand_seq good_env = rand_seq other_env"
    by (simp add: other_env_def)
  have a: "seq (main_inits good_env [''add'', ''3'']) initial
       = Returns () (state_of (seq (main_inits good_env [''add'', ''3'']) initial))"
    by (rule Returns_state_of) (rule good_env_inits)+
  have b: "seq (main_inits other_env [''sum'', ''3'']) initial
       = Returns () (state_of (seq (main_inits other_env [''sum'', ''3'']) initial))"
    by (rule Returns_state_of) (rule other_env_inits)+
  have z: "SZ (state_of (seq (main_inits good_env [''add'', ''3'']) initial))
       = SZ (state_of (seq (main_inits other_env [''sum'', ''3'']) initial))"
    using good_env_inits(3) other_env_inits(3) by simp
  show ?thesis
    using init_deterministic [OF r a b z] r a b z good_env_inits(4,5,6) by blast
qed

subsection \<open>print\<close>

lemma printf_printf: "printf b (printf a s) = printf (a @ b) s"
  by (simp add: printf_def)

lemma printf_Nil: "printf [] s = s"
  by (simp add: printf_def)

lemma print_loop_stop: "\<not> i < hi \<Longrightarrow> print_loop A i hi s = Returns () s"
  by (subst print_loop.simps) simp

lemma print_loop_step:
  assumes "i < hi" "0 \<le> i" "nat i < length xs"
  shows "print_loop (Some xs) i hi s =
     print_loop (Some xs) (i + 1) hi (printf (item (xs ! nat i)) s)"
  using assms by (subst print_loop.simps) (simp add: item_def)

lemma print_loop_closed:
  assumes "0 \<le> i" "i \<le> hi" "nat hi \<le> length xs"
  shows "print_loop (Some xs) i hi s =
     Returns () (printf (concat (map item (take (nat (hi - i)) (drop (nat i) xs)))) s)"
  using assms
proof (induction "Some xs" i hi s rule: print_loop.induct)
  case (1 i hi s)
  show ?case
  proof (cases "i < hi")
    case False
    then have "i = hi" using "1.prems" by simp
    then show ?thesis by (simp add: print_loop_stop printf_Nil)
  next
    case True
    have lt: "nat i < length xs" using True "1.prems" by linarith
    have IH: "print_loop (Some xs) (i + 1) hi (printf (item (xs ! nat i)) s) =
       Returns () (printf (concat (map item (take (nat (hi - (i + 1))) (drop (nat (i + 1)) xs))))
         (printf (item (xs ! nat i)) s))"
      using True "1.prems" lt
      by (intro "1.hyps" [OF True refl, unfolded item_def [symmetric]]) simp_all
    have n: "nat (hi - i) = Suc (nat (hi - (i + 1)))" using True by simp
    have d: "drop (nat i) xs = xs ! nat i # drop (nat (i + 1)) xs"
      using lt "1.prems" by (simp add: nat_add_distrib Cons_nth_drop_Suc)
    have "print_loop (Some xs) i hi s =
       print_loop (Some xs) (i + 1) hi (printf (item (xs ! nat i)) s)"
      using True "1.prems" lt by (intro print_loop_step) simp_all
    also have "\<dots> = Returns () (printf (concat (map item (take (nat (hi - i)) (drop (nat i) xs)))) s)"
      unfolding IH n d by (simp add: printf_printf)
    finally show ?thesis .
  qed
qed

lemma items_16:
  "concat (map (\<lambda>x. fmt_d x @ '' '') (take 5 [1, 2, 3, 4, 5, 6, 7, 8, 9, 10, 11, 12, 13, 14, 15, - 16 :: cint]))
      @ '' ..... ''
      @ concat (map (\<lambda>x. fmt_d x @ '' '') (drop (length [1, 2, 3, 4, 5, 6, 7, 8, 9, 10, 11, 12, 13, 14, 15, - 16 :: cint] - 5)
          [1, 2, 3, 4, 5, 6, 7, 8, 9, 10, 11, 12, 13, 14, 15, - 16]))
   = ''1 2 3 4 5  ..... 12 13 14 15 -16 ''"
  by code_simp

lemma print_whole_array:
  assumes "sint sz = int (length xs)"
  shows "print (Some xs) sz s =
     Returns ()
       (printf ((if length xs \<le> 15 then concat (map item xs)
                 else concat (map item (take 5 xs)) @ '' ..... ''
                      @ concat (map item (drop (length xs - 5) xs)))
                @ separator) s)"
proof (cases "length xs \<le> 15")
  case True
  have "print_loop (Some xs) 0 (sint sz) s =
     Returns () (printf (concat (map item (take (nat (sint sz - 0)) (drop (nat 0) xs)))) s)"
    using assms by (intro print_loop_closed) simp_all
  then show ?thesis using True assms by (simp add: print_def PRINT_def printf_printf)
next
  case False
  then have big: "15 < length xs" by simp
  have a: "print_loop (Some xs) 0 5 s =
     Returns () (printf (concat (map item (take (nat (5 - 0)) (drop (nat 0) xs)))) s)" for s
    using big by (intro print_loop_closed) simp_all
  have b: "print_loop (Some xs) (int (length xs) - 5) (int (length xs)) s =
     Returns () (printf (concat (map item (take (nat (int (length xs) - (int (length xs) - 5)))
        (drop (nat (int (length xs) - 5)) xs)))) s)" for s
    using big by (intro print_loop_closed) simp_all
  have c: "nat (int (length xs) - 5) = length xs - 5" by simp
  show ?thesis using False big assms
    by (simp add: print_def PRINT_def a b c printf_printf)
qed

text \<open>
  Claim C6. Printing is enabled (\<open>PRINT\<close> is 1). For an array of length \<open>n\<close>,
  \<open>print\<close> returns, and what it appends to standard output is: for \<open>n \<le> 15\<close> all
  \<open>n\<close> elements in order, each in decimal and followed by a space; for \<open>n > 15\<close> the
  first 5 elements, the marker \<open>" ..... "\<close> and the last 5 elements; and in both cases,
  last, a newline, the line of 28 dashes and a newline. Nothing else of the state changes.
\<close>

theorem print_output:
  assumes "sint sz = int (length xs)"
  shows "print (Some xs) sz s =
     Returns ()
       (s\<lparr>stdout := stdout s
            @ (if length xs \<le> 15 then concat (map (\<lambda>x. fmt_d x @ '' '') xs)
               else concat (map (\<lambda>x. fmt_d x @ '' '') (take 5 xs)) @ '' ..... ''
                    @ concat (map (\<lambda>x. fmt_d x @ '' '') (drop (length xs - 5) xs)))
            @ [CHR 0x0A] @ ''----------------------------'' @ [CHR 0x0A]\<rparr>)"
proof -
  have i: "item = (\<lambda>x. fmt_d x @ '' '')"
    by (simp add: fun_eq_iff item_def)
  show ?thesis
    using print_whole_array [OF assms, of s]
    by (simp only: i printf_def separator_def)
qed

theorem print_output_witness:
  "sint (16 :: cint) = int (length [1, 2, 3, 4, 5, 6, 7, 8, 9, 10, 11, 12, 13, 14, 15, - 16 :: cint])
   \<and> print (Some [1, 2, 3, 4, 5, 6, 7, 8, 9, 10, 11, 12, 13, 14, 15, - 16]) 16
         (initial\<lparr>stdout := ''v1: ''\<rparr>) =
       Returns ()
         (initial\<lparr>stdout := ''v1: 1 2 3 4 5  ..... 12 13 14 15 -16 ''
            @ [CHR 0x0A] @ ''----------------------------'' @ [CHR 0x0A]\<rparr>)"
proof -
  have h: "sint (16 :: cint) = int (length [1, 2, 3, 4, 5, 6, 7, 8, 9, 10, 11, 12, 13, 14, 15, - 16 :: cint])"
    by simp
  have big: "\<not> length [1, 2, 3, 4, 5, 6, 7, 8, 9, 10, 11, 12, 13, 14, 15, - 16 :: cint] \<le> 15"
    by simp
  have p: "print (Some [1, 2, 3, 4, 5, 6, 7, 8, 9, 10, 11, 12, 13, 14, 15, - 16]) 16
         (initial\<lparr>stdout := ''v1: ''\<rparr>) =
       Returns ()
         (initial\<lparr>stdout := ''v1: 1 2 3 4 5  ..... 12 13 14 15 -16 ''
            @ [CHR 0x0A] @ ''----------------------------'' @ [CHR 0x0A]\<rparr>)"
    using print_output [OF h, of "initial\<lparr>stdout := ''v1: ''\<rparr>"]
    unfolding if_not_P [OF big] items_16 by simp
  show ?thesis using h p by (rule conjI)
qed

subsection \<open>create\_device\<close>

lemma device_requests_append:
  "device_requests (xs @ ys) = device_requests xs @ device_requests ys"
  by (induction xs rule: device_requests.induct) simp_all

text \<open>
  Claim C7. Once the platform is identified, device selection asks for a GPU first. It asks
  for a CPU exactly when the GPU request returned \<open>CL_DEVICE_NOT_FOUND\<close>, and then
  returns the CPU device if that request succeeds. If neither request gives a device (the
  CPU request fails after \<open>CL_DEVICE_NOT_FOUND\<close>, or the GPU request fails otherwise),
  the process ends through \<open>exit(1)\<close>.
\<close>

theorem create_device_fallback:
  assumes "0 \<le> platform_status e"
  shows "device_requests (trace (state_of (create_device e s)))
       = device_requests (trace s)
         @ (if gpu_status e = CL_DEVICE_NOT_FOUND
            then [CL_DEVICE_TYPE_GPU, CL_DEVICE_TYPE_CPU] else [CL_DEVICE_TYPE_GPU])
     \<and> (0 \<le> gpu_status e \<longrightarrow> (\<exists>s'. create_device e s = Returns CL_DEVICE_TYPE_GPU s'))
     \<and> (gpu_status e = CL_DEVICE_NOT_FOUND \<and> 0 \<le> cpu_status e
          \<longrightarrow> (\<exists>s'. create_device e s = Returns CL_DEVICE_TYPE_CPU s'))
     \<and> (gpu_status e = CL_DEVICE_NOT_FOUND \<and> cpu_status e < 0
          \<longrightarrow> exit_code (create_device e s) = Some 1)
     \<and> (gpu_status e \<noteq> CL_DEVICE_NOT_FOUND \<and> gpu_status e < 0
          \<longrightarrow> exit_code (create_device e s) = Some 1)"
  using assms
  by (simp add: create_device_def Let_def state_of_def exit_code_def log_def printf_def
      perror_def device_requests_append CL_DEVICE_NOT_FOUND_def)

theorem create_device_fallback_witness:
  "0 \<le> platform_status no_device_env
     \<and> gpu_status no_device_env = CL_DEVICE_NOT_FOUND \<and> cpu_status no_device_env < 0
     \<and> device_requests (trace (state_of (create_device no_device_env initial)))
         = [CL_DEVICE_TYPE_GPU, CL_DEVICE_TYPE_CPU]
     \<and> exit_code (create_device no_device_env initial) = Some 1"
  using create_device_fallback [of no_device_env initial]
  by (simp add: no_device_env_def good_env_def initial_def CL_DEVICE_NOT_FOUND_def)

subsection \<open>What print and the set-up leave alone\<close>

lemma print_loop_only_stdout: "\<exists>str. state_of (print_loop A i hi s) = printf str s"
proof (induction A i hi s rule: print_loop.induct)
  case (1 A i hi s)
  show ?case
  proof (cases "i < hi \<and> (\<exists>xs. A = Some xs \<and> 0 \<le> i \<and> nat i < length xs)")
    case False
    then have "state_of (print_loop A i hi s) = s"
      by (subst print_loop.simps) (auto simp: state_of_def split: option.splits)
    then have "state_of (print_loop A i hi s) = printf [] s" by (simp add: printf_Nil)
    then show ?thesis ..
  next
    case True
    then obtain xs where xs: "i < hi" "A = Some xs" "0 \<le> i" "nat i < length xs" by blast
    have "\<exists>str. state_of (print_loop A (i + 1) hi (printf (fmt_d (xs ! nat i) @ '' '') s))
        = printf str (printf (fmt_d (xs ! nat i) @ '' '') s)"
      using xs by (intro "1.IH") simp_all
    then obtain str where
      "state_of (print_loop A (i + 1) hi (printf (fmt_d (xs ! nat i) @ '' '') s))
        = printf ((fmt_d (xs ! nat i) @ '' '') @ str) s"
      by (auto simp: printf_printf)
    moreover have "print_loop A i hi s
        = print_loop A (i + 1) hi (printf (fmt_d (xs ! nat i) @ '' '') s)"
      using xs by (subst print_loop.simps) simp
    ultimately show ?thesis by metis
  qed
qed

lemma print_only_stdout: "\<exists>str. state_of (print A sz s) = printf str s"
proof (cases "15 < sint sz")
  case False
  obtain a where a: "state_of (print_loop A 0 (sint sz) s) = printf a s"
    using print_loop_only_stdout by blast
  show ?thesis using False a
    by (cases "print_loop A 0 (sint sz) s")
       (auto simp: print_def PRINT_def state_of_def printf_printf)
next
  case True
  obtain b where b: "state_of (print_loop A 0 5 s) = printf b s"
    using print_loop_only_stdout by blast
  show ?thesis
  proof (cases "print_loop A 0 5 s")
    case (Returns u s1)
    then have s1: "s1 = printf b s" using b by (simp add: state_of_def)
    obtain c where c: "state_of (print_loop A (sint sz - 5) (sint sz) (printf '' ..... '' s1))
        = printf c (printf '' ..... '' s1)"
      using print_loop_only_stdout by blast
    show ?thesis using True Returns c s1
      by (cases "print_loop A (sint sz - 5) (sint sz) (printf '' ..... '' s1)")
         (auto simp: print_def PRINT_def state_of_def printf_printf)
  next
    case (Exits x s1)
    then show ?thesis using True b by (auto simp: print_def PRINT_def state_of_def)
  next
    case (Crashes s1)
    then show ?thesis using True b by (auto simp: print_def PRINT_def state_of_def)
  qed
qed

lemmas setup_defs =
  setup_openCL_device_context_queue_kernel_def create_device_def build_program_def
  c_malloc_def Let_def log_def printf_def perror_def

lemma setup_same_memory:
  "same_memory s (state_of (setup_openCL_device_context_queue_kernel e f k s))"
  by (simp add: setup_defs state_of_def same_memory_def)

lemma setup_trace:
  "\<exists>evs. trace (state_of (setup_openCL_device_context_queue_kernel e f k s)) = trace s @ evs
     \<and> list_all setup_event evs"
  by (simp add: setup_defs state_of_def)

lemma setup_no_file:
  "\<not> fopen_ok e \<Longrightarrow> exit_code (setup_openCL_device_context_queue_kernel e f k s) = Some 1"
  by (simp add: setup_defs exit_code_def)

lemma setup_Returns:
  assumes "setup_openCL_device_context_queue_kernel e f k s = Returns () s'"
  shows "0 \<le> err s'" and "same_memory s s'"
proof -
  show "0 \<le> err s'"
    using assms by (auto simp: setup_defs split: if_splits)
  show "same_memory s s'"
    using setup_same_memory [of s e f k] assms by (simp add: state_of_def)
qed

subsection \<open>Outcomes of main\<close>

lemma state_of_simps [simp]:
  "state_of (Returns x s) = s" "state_of (Exits c s) = s" "state_of (Crashes s) = s"
  by (simp_all add: state_of_def)

lemma exit_code_simps [simp]:
  "exit_code (Returns x s) = None" "exit_code (Exits c s) = Some c" "exit_code (Crashes s) = None"
  by (simp_all add: exit_code_def)

lemma returned_simps [simp]:
  "returned (Returns x s) = Some s" "returned (Exits c s) = None" "returned (Crashes s) = None"
  by (simp_all add: returned_def)

lemma crashed_simps [simp]:
  "crashed (Returns x s) = False" "crashed (Exits c s) = False" "crashed (Crashes s) = True"
  by (simp_all add: crashed_def)

lemma state_of_main: "state_of (main e argv) = state_of (seq (main_body e argv) initial)"
  by (simp add: main_def state_of_def split: result.splits)

lemma exit_code_main: "exit_code (main e argv) = exit_code (seq (main_body e argv) initial)"
  by (simp add: main_def exit_code_def split: result.splits)

lemma crashed_main: "crashed (main e argv) = crashed (seq (main_body e argv) initial)"
  by (simp add: main_def crashed_def split: result.splits)

lemma returned_main: "returned (main e argv) = returned (seq (main_body e argv) initial)"
  by (simp add: main_def returned_def split: result.splits)

lemma trace_init: "trace (state_of (init e A sz s)) = trace s @ [Malloc (unat (sizeof_int * scast sz))]"
  by (simp add: init_cases Let_def state_of_def log_def)

lemma trace_print: "trace (state_of (print A sz s)) = trace s"
proof -
  obtain str where "state_of (print A sz s) = printf str s"
    using print_only_stdout by blast
  then show ?thesis by (simp add: printf_def)
qed

text \<open>The statements of main before the set-up of the device.\<close>

lemma main_body_split:
  "main_body e argv =
     (main_inits e argv @ [\<lambda>s. print (v1 s) (SZ s) s, \<lambda>s. print (v2 s) (SZ s) s])
     @ setup_openCL_device_context_queue_kernel e ''./vector_ops_ocl.cl'' ''vector_add_ocl''
     # [setup_kernel_memory e, copy_kernel_args e] @ main_dispatch e @ main_after_readback"
  by (simp add: main_body_def main_to_readback_def main_host_def)

lemma host_part_trace:
  "list_all (\<lambda>x. \<exists>n. x = Malloc n)
     (trace (state_of (seq (main_inits e argv @ [\<lambda>s. print (v1 s) (SZ s) s, \<lambda>s. print (v2 s) (SZ s) s]) initial)))"
proof (rule seq_preserves [where P = "\<lambda>s. list_all (\<lambda>x. \<exists>n. x = Malloc n) (trace s)"])
  show "list_all (\<lambda>x. \<exists>n. x = Malloc n) (trace initial)" by (simp add: initial_def)
next
  fix f :: "state \<Rightarrow> unit result" and s :: state
  assume "f \<in> set (main_inits e argv @ [\<lambda>s. print (v1 s) (SZ s) s, \<lambda>s. print (v2 s) (SZ s) s])"
    and "list_all (\<lambda>x. \<exists>n. x = Malloc n) (trace s)"
  then show "list_all (\<lambda>x. \<exists>n. x = Malloc n) (trace (state_of (f s)))"
    by (auto simp: main_inits_def trace_init trace_print)
qed

lemma main_outcome:
  assumes "seq (main_body e argv) initial = r" and "returned r = None"
  shows "state_of (main e argv) = state_of r" and "exit_code (main e argv) = exit_code r"
    and "returned (main e argv) = None"
  using assms
  by (cases r; simp add: main_def state_of_def exit_code_def returned_def)+

lemma no_file_env_opens:
  "Fopen ''./vector_ops_ocl.cl'' \<in> set (trace (state_of (main no_file_env [''add'', ''3''])))"
  by code_simp

text \<open>
  Claim C8. If the kernel source file cannot be opened, no run of \<open>main\<close> ever calls
  \<open>clCreateBuffer\<close>, no run returns normally, and every run that gets as far as
  trying to open the file ends through \<open>exit(1)\<close>. (A run that does not get that far
  has stopped in \<open>init\<close>, or at the selection of the device or the creation of the
  context.)
\<close>

theorem no_buffer_without_source_file:
  assumes "\<not> fopen_ok e"
  shows "CreateBuffer n \<notin> set (trace (state_of (main e argv)))
     \<and> returned (main e argv) = None
     \<and> (Fopen f \<in> set (trace (state_of (main e argv))) \<longrightarrow> exit_code (main e argv) = Some 1)"
proof -
  let ?pre = "main_inits e argv @ [\<lambda>s. print (v1 s) (SZ s) s, \<lambda>s. print (v2 s) (SZ s) s]"
  let ?stp = "setup_openCL_device_context_queue_kernel e ''./vector_ops_ocl.cl'' ''vector_add_ocl''"
  let ?rest = "[setup_kernel_memory e, copy_kernel_args e] @ main_dispatch e @ main_after_readback"
  have body: "seq (main_body e argv) initial =
      (case seq ?pre initial of
         Returns u s' \<Rightarrow> seq (?stp # ?rest) s'
       | Exits c s' \<Rightarrow> Exits c s'
       | Crashes s' \<Rightarrow> Crashes s')"
    by (simp only: main_body_split seq_append)
  have host: "list_all (\<lambda>x. \<exists>n. x = Malloc n) (trace (state_of (seq ?pre initial)))"
    by (rule host_part_trace)
  show ?thesis
  proof (cases "seq ?pre initial")
    case (Returns u s6)
    have m: "list_all (\<lambda>x. \<exists>n. x = Malloc n) (trace s6)"
      using host Returns by (simp add: state_of_def)
    have x: "exit_code (?stp s6) = Some 1" using assms by (rule setup_no_file)
    then obtain s7 where s7: "?stp s6 = Exits 1 s7"
      by (cases "?stp s6") (simp_all add: exit_code_def)
    obtain evs where evs: "trace s7 = trace s6 @ evs" "list_all setup_event evs"
      using setup_trace [of e "''./vector_ops_ocl.cl''" "''vector_add_ocl''" s6] s7
      by (auto simp: state_of_def)
    have r: "seq (main_body e argv) initial = Exits 1 s7"
      using body Returns s7 by simp
    have n: "returned (Exits 1 s7 :: unit result) = None" by (simp add: returned_def)
    have "CreateBuffer n \<notin> set (trace s7)"
      using m evs by (auto simp: list_all_iff)
    then show ?thesis
      unfolding main_outcome [OF r n] by (simp add: state_of_def exit_code_def)
  next
    case (Exits c s')
    then have r: "seq (main_body e argv) initial = Exits c s'" using body by simp
    have n: "returned (Exits c s' :: unit result) = None" by (simp add: returned_def)
    have "list_all (\<lambda>x. \<exists>n. x = Malloc n) (trace s')"
      using host Exits by (simp add: state_of_def)
    then have "CreateBuffer n \<notin> set (trace s')" "Fopen f \<notin> set (trace s')"
      by (auto simp: list_all_iff)
    then show ?thesis
      unfolding main_outcome [OF r n] by (simp add: state_of_def)
  next
    case (Crashes s')
    then have r: "seq (main_body e argv) initial = Crashes s'" using body by simp
    have n: "returned (Crashes s' :: unit result) = None" by (simp add: returned_def)
    have "list_all (\<lambda>x. \<exists>n. x = Malloc n) (trace s')"
      using host Crashes by (simp add: state_of_def)
    then have "CreateBuffer n \<notin> set (trace s')" "Fopen f \<notin> set (trace s')"
      by (auto simp: list_all_iff)
    then show ?thesis
      unfolding main_outcome [OF r n] by (simp add: state_of_def)
  qed
qed

theorem no_buffer_without_source_file_witness:
  "\<not> fopen_ok no_file_env
     \<and> CreateBuffer 12 \<notin> set (trace (state_of (main no_file_env [''add'', ''3''])))
     \<and> returned (main no_file_env [''add'', ''3'']) = None
     \<and> Fopen ''./vector_ops_ocl.cl'' \<in> set (trace (state_of (main no_file_env [''add'', ''3''])))
     \<and> exit_code (main no_file_env [''add'', ''3'']) = Some 1"
proof -
  have h: "\<not> fopen_ok no_file_env" by (simp add: no_file_env_def)
  show ?thesis
    using no_buffer_without_source_file [OF h, of 12 "[''add'', ''3'']" "''./vector_ops_ocl.cl''"]
      h no_file_env_opens by blast
qed

subsection \<open>The kernel dispatch\<close>

lemma run_items_append:
  "run_items k (xs @ ys) d = (case run_items k xs d of None \<Rightarrow> None | Some d' \<Rightarrow> run_items k ys d')"
  by (induction xs arbitrary: d) (auto split: option.splits)

lemma run_items_single: "run_items k [i] d = k i d"
  by (simp split: option.splits)

lemma run_items_vector_add:
  assumes "d a = Some A" "d b = Some B" "d c = Some C" "a \<noteq> c" "b \<noteq> c"
    and "m \<le> length (bdata A)" "m \<le> length (bdata B)" "m \<le> length (bdata C)"
  shows "run_items (vector_add_ocl sz (Some a) (Some b) (Some c)) [0..<m] d =
     Some (d(c \<mapsto> C\<lparr>bdata := map (\<lambda>i. bdata A ! i + bdata B ! i) [0..<m] @ drop m (bdata C)\<rparr>))"
  using assms(6-8)
proof (induction m)
  case 0
  have "d(c \<mapsto> C) = d" using assms(3) by (auto simp: fun_eq_iff)
  then show ?case by simp
next
  case (Suc m)
  let ?L = "map (\<lambda>i. bdata A ! i + bdata B ! i) [0..<m] @ drop m (bdata C)"
  let ?d = "d(c \<mapsto> C\<lparr>bdata := ?L\<rparr>)"
  have IH: "run_items (vector_add_ocl sz (Some a) (Some b) (Some c)) [0..<m] d = Some ?d"
    using Suc.prems by (intro Suc.IH) simp_all
  have len: "length ?L = length (bdata C)" using Suc.prems by simp
  have la: "load ?d (Some a) m = Some (bdata A ! m)"
    using assms(1,4) Suc.prems by (simp add: load_def)
  have lb: "load ?d (Some b) m = Some (bdata B ! m)"
    using assms(2,5) Suc.prems by (simp add: load_def)
  have upd: "?L[m := x] = map (\<lambda>i. bdata A ! i + bdata B ! i) [0..<m] @ x # drop (Suc m) (bdata C)" for x
  proof -
    have "drop m (bdata C) = bdata C ! m # drop (Suc m) (bdata C)"
      using Suc.prems by (simp add: Cons_nth_drop_Suc)
    then show ?thesis by (simp add: list_update_append)
  qed
  have st: "store ?d (Some c) m x =
      Some (d(c \<mapsto> C\<lparr>bdata := map (\<lambda>i. bdata A ! i + bdata B ! i) [0..<m] @ x # drop (Suc m) (bdata C)\<rparr>))" for x
    using Suc.prems len by (simp add: store_def upd)
  have step: "vector_add_ocl sz (Some a) (Some b) (Some c) m ?d =
      Some (d(c \<mapsto> C\<lparr>bdata := map (\<lambda>i. bdata A ! i + bdata B ! i) [0..<Suc m] @ drop (Suc m) (bdata C)\<rparr>))"
    by (simp add: vector_add_ocl_def la lb st)
  have "run_items (vector_add_ocl sz (Some a) (Some b) (Some c)) [0..<Suc m] d =
      run_items (vector_add_ocl sz (Some a) (Some b) (Some c)) ([0..<m] @ [m]) d"
    by simp
  also have "\<dots> = run_items (vector_add_ocl sz (Some a) (Some b) (Some c)) [m] ?d"
    by (simp only: run_items_append IH option.case)
  also have "\<dots> = vector_add_ocl sz (Some a) (Some b) (Some c) m ?d"
    by (rule run_items_single)
  also note step
  finally show ?case .
qed

subsection \<open>What init leaves alone\<close>

lemma set_vec_fields [simp]:
  "SZ (set_vec A p s) = SZ s" "dev (set_vec A p s) = dev s" "kargs (set_vec A p s) = kargs s"
  "n_buf (set_vec A p s) = n_buf s" "bufV1 (set_vec A p s) = bufV1 s"
  "bufV2 (set_vec A p s) = bufV2 s" "bufV_out (set_vec A p s) = bufV_out s"
  "err (set_vec A p s) = err s" "n_malloc (set_vec A p s) = n_malloc s"
  "stdout (set_vec A p s) = stdout s"
  by (cases A; simp)+

lemma get_vec_other: "B \<noteq> A \<Longrightarrow> get_vec B (set_vec A p s) = get_vec B s"
  by (cases A; cases B; simp)

lemma get_vec_fields [simp]:
  "get_vec A (s\<lparr>trace := t\<rparr>) = get_vec A s" "get_vec A (s\<lparr>n_malloc := k\<rparr>) = get_vec A s"
  by (cases A; simp)+

lemma init_device_untouched:
  "SZ (state_of (init e A sz s)) = SZ s" "dev (state_of (init e A sz s)) = dev s"
  "kargs (state_of (init e A sz s)) = kargs s" "n_buf (state_of (init e A sz s)) = n_buf s"
  "bufV1 (state_of (init e A sz s)) = bufV1 s" "bufV2 (state_of (init e A sz s)) = bufV2 s"
  "bufV_out (state_of (init e A sz s)) = bufV_out s" "err (state_of (init e A sz s)) = err s"
  by (simp_all add: init_cases Let_def log_def)

lemma init_other_vec:
  "B \<noteq> A \<Longrightarrow> get_vec B (state_of (init e A sz s)) = get_vec B s"
  by (simp add: init_cases Let_def log_def get_vec_other)

lemma init_Returns_vec:
  assumes "init e A sz s = Returns () s'" and "0 < sint sz"
  shows "\<exists>X. get_vec A s' = Some X \<and> length X = nat (sint sz)"
  using assms by (auto simp: init_cases Let_def split: if_splits)

subsection \<open>The device calls on their successful paths\<close>

lemma unat_SZ_bytes:
  "0 \<le> sint (SZ s) \<Longrightarrow> unat (SZ_bytes s) = 4 * nat (sint (SZ s))"
  by (simp add: SZ_bytes_def sizeof_int_def unat_scast_times_4)

lemma SZ_bytes_fields [simp]:
  "SZ_bytes (s\<lparr>n_buf := k\<rparr>) = SZ_bytes s" "SZ_bytes (s\<lparr>trace := t\<rparr>) = SZ_bytes s"
  "SZ_bytes (s\<lparr>dev := d\<rparr>) = SZ_bytes s" "SZ_bytes (s\<lparr>bufV1 := h\<rparr>) = SZ_bytes s"
  "SZ_bytes (s\<lparr>bufV2 := h\<rparr>) = SZ_bytes s" "SZ_bytes (s\<lparr>bufV_out := h\<rparr>) = SZ_bytes s"
  "SZ_bytes (s\<lparr>kargs := a\<rparr>) = SZ_bytes s" "SZ_bytes (s\<lparr>cl_event := b\<rparr>) = SZ_bytes s"
  "SZ_bytes (s\<lparr>pending := q\<rparr>) = SZ_bytes s"
  "SZ_bytes (s\<lparr>v_out := p\<rparr>) = SZ_bytes s"
  by (simp_all add: SZ_bytes_def)

lemmas memory_defs =
  setup_kernel_memory_def setup_kernel_memory_body_def clCreateBuffer_def
  clEnqueueWriteBuffer_def ignore_def Let_def log_def perror_def

lemma setup_kernel_memory_fails:
  assumes "\<not> (buffer_ok e (n_buf s) \<and> buffer_ok e (Suc (n_buf s))
      \<and> buffer_ok e (Suc (Suc (n_buf s))) \<and> SZ_bytes s \<noteq> 0)"
  shows "exit_code (setup_kernel_memory e s) = Some 1"
  using assms by (auto simp: memory_defs)

lemma setup_kernel_memory_ok:
  assumes "buffer_ok e (n_buf s)" "buffer_ok e (Suc (n_buf s))"
    "buffer_ok e (Suc (Suc (n_buf s)))" "SZ_bytes s \<noteq> 0"
    and "v1 s = Some X" "v2 s = Some Y"
    and "length X = unat (SZ_bytes s) div 4" "length Y = unat (SZ_bytes s) div 4"
    and "write_status e (n_buf s) = CL_SUCCESS" "write_status e (Suc (n_buf s)) = CL_SUCCESS"
  shows "setup_kernel_memory e s = Returns ()
    (s\<lparr>n_buf := n_buf s + 3,
       trace := trace s @ [CreateBuffer (unat (SZ_bytes s)), CreateBuffer (unat (SZ_bytes s)),
         CreateBuffer (unat (SZ_bytes s)),
         EnqueueWriteBuffer (Some (n_buf s)) (unat (SZ_bytes s)),
         EnqueueWriteBuffer (Some (Suc (n_buf s))) (unat (SZ_bytes s))],
       bufV1 := Some (n_buf s), bufV2 := Some (Suc (n_buf s)),
       bufV_out := Some (Suc (Suc (n_buf s))),
       dev := (dev s)(n_buf s \<mapsto> \<lparr>bsize = unat (SZ_bytes s), bdata = X\<rparr>,
                 Suc (n_buf s) \<mapsto> \<lparr>bsize = unat (SZ_bytes s), bdata = Y\<rparr>,
                 Suc (Suc (n_buf s)) \<mapsto>
                   \<lparr>bsize = unat (SZ_bytes s), bdata = fresh_block e (SZ_bytes s)\<rparr>)\<rparr>)"
proof -
  have l: "length (fresh_block e (SZ_bytes s)) = unat (SZ_bytes s) div 4"
    by (simp add: fresh_block_def)
  show ?thesis
    using assms l by (simp add: memory_defs fun_upd_twist)
qed

lemma copy_kernel_args_ok:
  assumes "setarg_status e 0 = CL_SUCCESS" "setarg_status e 1 = CL_SUCCESS"
    "setarg_status e 2 = CL_SUCCESS" "setarg_status e 3 = CL_SUCCESS" and "0 \<le> err s"
  shows "copy_kernel_args e s = Returns ()
    (s\<lparr>trace := trace s @ [SetKernelArg 0, SetKernelArg 1, SetKernelArg 2, SetKernelArg 3],
       kargs := (kargs s)(0 \<mapsto> ArgInt (SZ s), 1 \<mapsto> ArgMem (bufV1 s),
                   2 \<mapsto> ArgMem (bufV2 s), 3 \<mapsto> ArgMem (bufV_out s))\<rparr>)"
  using assms
  by (simp add: copy_kernel_args_def copy_kernel_args_body_def clSetKernelArg_def ignore_def
      Let_def log_def)

lemma dispatch_ok:
  assumes "ndrange_status e = CL_SUCCESS"
    and "kargs s 0 = Some (ArgInt n)" "kargs s 1 = Some (ArgMem a)"
      "kargs s 2 = Some (ArgMem b)" "kargs s 3 = Some (ArgMem c)"
  shows "ignore (clEnqueueNDRangeKernel e g s) = Returns ()
    (s\<lparr>trace := trace s @ [EnqueueNDRangeKernel (unat g)],
       pending := Some (n, a, b, c, unat g), cl_event := True\<rparr>)"
proof -
  have "bound_args (kargs s) = Some (n, a, b, c)"
    using assms(2-5) by (simp add: bound_args_def)
  then show ?thesis
    using assms(1) by (simp add: clEnqueueNDRangeKernel_def ignore_def Let_def log_def)
qed

lemma run_pending_ok:
  assumes "pending s = Some (n, Some a, Some b, Some c, g)"
    and "wait_status e = CL_SUCCESS"
    and "dev s a = Some A" "dev s b = Some B" "dev s c = Some C" "a \<noteq> c" "b \<noteq> c"
    and "g \<le> length (bdata A)" "g \<le> length (bdata B)" "g \<le> length (bdata C)"
  shows "run_pending e s = Some
    (s\<lparr>dev := (dev s)(c \<mapsto> C\<lparr>bdata := map (\<lambda>i. bdata A ! i + bdata B ! i) [0..<g]
                                 @ drop g (bdata C)\<rparr>),
       pending := None\<rparr>)"
proof -
  have "run_items (vector_add_ocl n (Some a) (Some b) (Some c)) [0..<g] (dev s) =
     Some ((dev s)(c \<mapsto> C\<lparr>bdata := map (\<lambda>i. bdata A ! i + bdata B ! i) [0..<g]
                                 @ drop g (bdata C)\<rparr>))"
    using assms(3-10) by (rule run_items_vector_add)
  then show ?thesis
    using assms(1,2)
    by (simp add: run_pending_def CL_SUCCESS_def CL_EXEC_STATUS_ERROR_FOR_EVENTS_IN_WAIT_LIST_def)
qed

lemma wait_ok:
  assumes "cl_event s" and "pending s = Some (n, Some a, Some b, Some c, g)"
    and "wait_status e = CL_SUCCESS"
    and "dev s a = Some A" "dev s b = Some B" "dev s c = Some C" "a \<noteq> c" "b \<noteq> c"
    and "g \<le> length (bdata A)" "g \<le> length (bdata B)" "g \<le> length (bdata C)"
  shows "ignore (clWaitForEvents e s) = Returns ()
    (s\<lparr>trace := trace s @ [WaitForEvents],
       dev := (dev s)(c \<mapsto> C\<lparr>bdata := map (\<lambda>i. bdata A ! i + bdata B ! i) [0..<g]
                                 @ drop g (bdata C)\<rparr>),
       pending := None\<rparr>)"
proof -
  let ?s1 = "s\<lparr>trace := trace s @ [WaitForEvents]\<rparr>"
  have "run_pending e ?s1 = Some
    (?s1\<lparr>dev := (dev ?s1)(c \<mapsto> C\<lparr>bdata := map (\<lambda>i. bdata A ! i + bdata B ! i) [0..<g]
                                 @ drop g (bdata C)\<rparr>),
       pending := None\<rparr>)"
    using assms(2-11) by (intro run_pending_ok [where n = n and a = a and b = b]) simp_all
  then show ?thesis
    using assms(1) by (simp add: clWaitForEvents_def ignore_def Let_def log_def)
qed

lemma readback_ok:
  assumes "read_status e = CL_SUCCESS" "dev s c = Some C" "v_out s = Some Z"
    and "unat bytes \<le> bsize C" "unat bytes div 4 \<le> length Z" and "pending s = None"
  shows "ignore (clEnqueueReadBuffer e (Some c) bytes V_OUT s) = Returns ()
    (s\<lparr>trace := trace s @ [EnqueueReadBuffer (Some c) (unat bytes)],
       v_out := Some (take (unat bytes div 4) (bdata C) @ drop (unat bytes div 4) Z)\<rparr>)"
  using assms
  by (simp add: clEnqueueReadBuffer_def run_pending_def ignore_def Let_def log_def)

subsection \<open>The sizes of the buffers\<close>

text \<open>A step keeps the vector length and the sizes of the buffers.\<close>

lemma buffers_sized_same:
  "dev s' = dev s \<Longrightarrow> SZ s' = SZ s \<Longrightarrow> buffers_sized s \<Longrightarrow> buffers_sized s'"
  by (simp add: buffers_sized_def SZ_bytes_def)

lemma create_buffer_keeps:
  "SZ (snd (clCreateBuffer e bytes s)) = SZ s"
  "buffers_sized s \<Longrightarrow> bytes = SZ_bytes s \<Longrightarrow> buffers_sized (snd (clCreateBuffer e bytes s))"
  by (auto simp: clCreateBuffer_def Let_def log_def buffers_sized_def SZ_bytes_def)

lemma write_buffer_keeps:
  "SZ (state_of (clEnqueueWriteBuffer e buf bytes ptr s)) = SZ s"
  "buffers_sized s \<Longrightarrow> buffers_sized (state_of (clEnqueueWriteBuffer e buf bytes ptr s))"
  by (auto simp: clEnqueueWriteBuffer_def Let_def log_def buffers_sized_def SZ_bytes_def
      split: option.splits)

lemma set_arg_keeps:
  "SZ (state_of (clSetKernelArg e i n v s)) = SZ s"
  "dev (state_of (clSetKernelArg e i n v s)) = dev s"
  by (simp_all add: clSetKernelArg_def Let_def log_def)

lemma store_sizes:
  "store d p i x = Some d' \<Longrightarrow> map_option bsize (d' h) = map_option bsize (d h)"
  by (auto simp: store_def split: option.splits if_splits)

lemma vector_add_sizes:
  "vector_add_ocl n a b c gid d = Some d' \<Longrightarrow> map_option bsize (d' h) = map_option bsize (d h)"
  by (auto simp: vector_add_ocl_def store_sizes split: option.splits)

lemma run_items_sizes:
  "run_items (vector_add_ocl n a b c) is d = Some d'
     \<Longrightarrow> map_option bsize (d' h) = map_option bsize (d h)"
proof (induction "is" arbitrary: d)
  case Nil
  then show ?case by simp
next
  case (Cons i "is")
  then obtain d1 where d1: "vector_add_ocl n a b c i d = Some d1"
    and r: "run_items (vector_add_ocl n a b c) is d1 = Some d'"
    by (auto split: option.splits)
  show ?case using Cons.IH [OF r] vector_add_sizes [OF d1, of h] by simp
qed

lemma buffers_sized_sizes:
  assumes "\<And>h. map_option bsize (dev s' h) = map_option bsize (dev s h)" "SZ s' = SZ s"
    and "buffers_sized s"
  shows "buffers_sized s'"
  unfolding buffers_sized_def
proof (intro allI impI)
  fix h b assume b: "dev s' h = Some b"
  then have "map_option bsize (dev s h) = Some (bsize b)" using assms(1) [of h] by simp
  then obtain b0 where "dev s h = Some b0" "bsize b0 = bsize b" by auto
  then show "bsize b = unat (SZ_bytes s')"
    using assms(2,3) by (simp add: buffers_sized_def SZ_bytes_def)
qed

lemma dispatch_state:
  "SZ (state_of (clEnqueueNDRangeKernel e g s)) = SZ s"
  "dev (state_of (clEnqueueNDRangeKernel e g s)) = dev s"
  "trace (state_of (clEnqueueNDRangeKernel e g s)) = trace s @ [EnqueueNDRangeKernel (unat g)]"
  by (simp_all add: clEnqueueNDRangeKernel_def Let_def log_def split: option.splits prod.splits)

lemma run_pending_cases:
  assumes "run_pending e s = Some s'"
  shows "s' = s \<or> s' = s\<lparr>pending := None\<rparr>
     \<or> (\<exists>n a b c g d'. run_items (vector_add_ocl n a b c) [0..<g] (dev s) = Some d'
           \<and> s' = s\<lparr>dev := d', pending := None\<rparr>)"
proof (cases "pending s")
  case None
  then have "run_pending e s = Some s" by (simp add: run_pending_def)
  with assms have "s' = s" by simp
  then show ?thesis by simp
next
  case (Some q)
  obtain n a b c g where q: "q = (n, a, b, c, g)" by (cases q) auto
  show ?thesis
  proof (cases "wait_status e = CL_EXEC_STATUS_ERROR_FOR_EVENTS_IN_WAIT_LIST")
    case True
    then have "run_pending e s = Some (s\<lparr>pending := None\<rparr>)"
      using Some q by (simp add: run_pending_def)
    with assms have "s' = s\<lparr>pending := None\<rparr>" by simp
    then show ?thesis by simp
  next
    case normal: False
    show ?thesis
    proof (cases "run_items (vector_add_ocl n a b c) [0..<g] (dev s)")
      case None
      then have "run_pending e s = None"
        using \<open>pending s = Some q\<close> q normal by (simp add: run_pending_def)
      with assms show ?thesis by simp
    next
      case (Some d')
      then have "run_pending e s = Some (s\<lparr>dev := d', pending := None\<rparr>)"
        using \<open>pending s = Some q\<close> q normal by (simp add: run_pending_def)
      with assms have "s' = s\<lparr>dev := d', pending := None\<rparr>" by simp
      then show ?thesis using Some by blast
    qed
  qed
qed

lemma run_pending_keeps:
  assumes "run_pending e s = Some s'"
  shows "SZ s' = SZ s" "trace s' = trace s"
    "map_option bsize (dev s' h) = map_option bsize (dev s h)"
proof -
  from run_pending_cases [OF assms]
  consider (none) "s' = s" | (abnormal) "s' = s\<lparr>pending := None\<rparr>"
    | (ran) n a b c g d' where "run_items (vector_add_ocl n a b c) [0..<g] (dev s) = Some d'"
        "s' = s\<lparr>dev := d', pending := None\<rparr>"
    by blast
  note cases = this
  show "SZ s' = SZ s" by (cases rule: cases) simp_all
  show "trace s' = trace s" by (cases rule: cases) simp_all
  show "map_option bsize (dev s' h) = map_option bsize (dev s h)"
  proof (cases rule: cases)
    case ran
    show ?thesis using run_items_sizes [OF ran(1), of h] by (simp add: ran(2))
  qed simp_all
qed

lemma created_sizes_append:
  "created_sizes (xs @ ys) = created_sizes xs @ created_sizes ys"
  by (induction xs rule: created_sizes.induct) simp_all

lemma created_sizes_setup: "list_all setup_event evs \<Longrightarrow> created_sizes evs = []"
  by (induction evs rule: created_sizes.induct) simp_all

lemma keeps_sizesI:
  assumes z: "\<And>s. SZ (state_of (f s)) = SZ s"
    and b: "\<And>s. buffers_sized s \<Longrightarrow> buffers_sized (state_of (f s))"
    and t: "\<And>s. \<exists>evs. trace (state_of (f s)) = trace s @ evs
          \<and> list_all (\<lambda>n. n = unat (SZ_bytes s)) (created_sizes evs)"
  shows "keeps_sizes f"
  unfolding keeps_sizes_def
proof (intro allI conjI impI)
  fix s
  show "SZ (state_of (f s)) = SZ s" by (rule z)
  assume inv: "sizes_inv s"
  obtain evs where evs: "trace (state_of (f s)) = trace s @ evs"
    "list_all (\<lambda>n. n = unat (SZ_bytes s)) (created_sizes evs)"
    using t [of s] by blast
  have zb: "SZ_bytes (state_of (f s)) = SZ_bytes s" by (simp add: SZ_bytes_def z)
  show "sizes_inv (state_of (f s))"
    using inv b [of s] evs by (simp add: sizes_inv_def zb created_sizes_append)
qed

lemma keeps_sizes_same:
  assumes "\<And>s. SZ (state_of (f s)) = SZ s" "\<And>s. dev (state_of (f s)) = dev s"
    and "\<And>s. \<exists>evs. trace (state_of (f s)) = trace s @ evs \<and> created_sizes evs = []"
  shows "keeps_sizes f"
proof (rule keeps_sizesI)
  fix s
  show "SZ (state_of (f s)) = SZ s" by (rule assms(1))
  show "buffers_sized s \<Longrightarrow> buffers_sized (state_of (f s))"
    by (rule buffers_sized_same [OF assms(2) assms(1)])
  obtain evs where "trace (state_of (f s)) = trace s @ evs" "created_sizes evs = []"
    using assms(3) [of s] by blast
  then show "\<exists>evs. trace (state_of (f s)) = trace s @ evs
          \<and> list_all (\<lambda>n. n = unat (SZ_bytes s)) (created_sizes evs)"
    by (intro exI [of _ evs]) simp
qed

lemma keeps_init: "keeps_sizes (\<lambda>s. init e A (SZ s) s)"
proof (rule keeps_sizes_same)
  fix s
  show "SZ (state_of (init e A (SZ s) s)) = SZ s" "dev (state_of (init e A (SZ s) s)) = dev s"
    by (rule init_device_untouched)+
  show "\<exists>evs. trace (state_of (init e A (SZ s) s)) = trace s @ evs \<and> created_sizes evs = []"
    by (simp add: trace_init)
qed

lemma keeps_print: "keeps_sizes (\<lambda>s. print (g s) (SZ s) s)"
proof (rule keeps_sizes_same)
  fix s
  obtain str where st: "state_of (print (g s) (SZ s) s) = printf str s"
    using print_only_stdout by blast
  show "SZ (state_of (print (g s) (SZ s) s)) = SZ s" "dev (state_of (print (g s) (SZ s) s)) = dev s"
    by (simp_all only: st) (simp_all add: printf_def)
  show "\<exists>evs. trace (state_of (print (g s) (SZ s) s)) = trace s @ evs \<and> created_sizes evs = []"
    by (simp add: trace_print)
qed

lemma keeps_setup: "keeps_sizes (setup_openCL_device_context_queue_kernel e f k)"
proof (rule keeps_sizes_same)
  fix s
  have m: "same_memory s (state_of (setup_openCL_device_context_queue_kernel e f k s))"
    by (rule setup_same_memory)
  show "SZ (state_of (setup_openCL_device_context_queue_kernel e f k s)) = SZ s"
    "dev (state_of (setup_openCL_device_context_queue_kernel e f k s)) = dev s"
    using m by (simp_all add: same_memory_def)
  show "\<exists>evs. trace (state_of (setup_openCL_device_context_queue_kernel e f k s)) = trace s @ evs
     \<and> created_sizes evs = []"
    using setup_trace [of e f k s] created_sizes_setup by blast
qed

lemma keeps_log:
  "created_sizes [x] = [] \<Longrightarrow> keeps_sizes (\<lambda>s. Returns () (log x s))"
  by (rule keeps_sizes_same) (simp_all add: log_def)

lemma state_of_ignore [simp]: "state_of (ignore r) = state_of r"
  by (cases r) (simp_all add: ignore_def)

lemma exit_code_ignore [simp]: "exit_code (ignore r) = exit_code r"
  by (cases r) (simp_all add: ignore_def)

lemma crashed_ignore [simp]: "crashed (ignore r) = crashed r"
  by (cases r) (simp_all add: ignore_def)

lemma create_buffer_trace:
  "trace (snd (clCreateBuffer e bytes s)) = trace s @ [CreateBuffer (unat bytes)]"
  by (simp add: clCreateBuffer_def Let_def log_def)

lemma keeps_create:
  assumes "\<And>h s. SZ (upd h s) = SZ s" "\<And>h s. dev (upd h s) = dev s"
    "\<And>h s. trace (upd h s) = trace s"
  shows "keeps_sizes (\<lambda>s. let (h, s') = clCreateBuffer e (SZ_bytes s) s in Returns () (upd h s'))"
proof (rule keeps_sizesI)
  fix s
  let ?c = "clCreateBuffer e (SZ_bytes s) s"
  have st: "state_of (let (h, s') = ?c in Returns () (upd h s')) = upd (fst ?c) (snd ?c)"
    by (simp add: case_prod_beta)
  show "SZ (state_of (let (h, s') = ?c in Returns () (upd h s'))) = SZ s"
    by (simp only: st assms create_buffer_keeps)
  show "\<exists>evs. trace (state_of (let (h, s') = ?c in Returns () (upd h s'))) = trace s @ evs
          \<and> list_all (\<lambda>n. n = unat (SZ_bytes s)) (created_sizes evs)"
    by (simp only: st assms create_buffer_trace) simp
  assume "buffers_sized s"
  then have "buffers_sized (snd ?c)" by (rule create_buffer_keeps) simp
  then have "buffers_sized (upd (fst ?c) (snd ?c))"
    by (rule buffers_sized_same [rotated 2]) (simp_all only: assms)
  then show "buffers_sized (state_of (let (h, s') = ?c in Returns () (upd h s')))"
    by (simp only: st)
qed

lemma keeps_create_bufs:
  "keeps_sizes (\<lambda>s. case clCreateBuffer e (SZ_bytes s) s of (h, s') \<Rightarrow> Returns () (s'\<lparr>bufV1 := h\<rparr>))"
  "keeps_sizes (\<lambda>s. case clCreateBuffer e (SZ_bytes s) s of (h, s') \<Rightarrow> Returns () (s'\<lparr>bufV2 := h\<rparr>))"
  "keeps_sizes (\<lambda>s. case clCreateBuffer e (SZ_bytes s) s of (h, s') \<Rightarrow> Returns () (s'\<lparr>bufV_out := h\<rparr>))"
  using keeps_create [where upd = "\<lambda>h s. s\<lparr>bufV1 := h\<rparr>" and e = e]
    keeps_create [where upd = "\<lambda>h s. s\<lparr>bufV2 := h\<rparr>" and e = e]
    keeps_create [where upd = "\<lambda>h s. s\<lparr>bufV_out := h\<rparr>" and e = e]
  by simp_all

lemma write_buffer_trace:
  "trace (state_of (clEnqueueWriteBuffer e buf bytes ptr s))
     = trace s @ [EnqueueWriteBuffer buf (unat bytes)]"
  by (simp add: clEnqueueWriteBuffer_def Let_def log_def split: option.splits)

lemma keeps_write:
  "keeps_sizes (\<lambda>s. ignore (clEnqueueWriteBuffer e (buf s) (SZ_bytes s) (ptr s) s))"
  by (rule keeps_sizesI) (simp_all add: write_buffer_keeps write_buffer_trace)

lemma keeps_set_arg: "keeps_sizes (\<lambda>s. ignore (clSetKernelArg e i n (v s) s))"
  by (rule keeps_sizes_same)
     (simp_all add: set_arg_keeps, simp add: clSetKernelArg_def Let_def log_def)

lemma keeps_check:
  "keeps_sizes (\<lambda>s. if c s then Exits 1 (perror m s) else Returns () s)"
  by (rule keeps_sizes_same) (simp_all add: perror_def log_def)

lemma keeps_check_err:
  "keeps_sizes (\<lambda>s. if c s then Exits 1 (printf (p s) (perror m s)) else Returns () s)"
  by (rule keeps_sizes_same) (simp_all add: perror_def log_def printf_def)

lemma keeps_sizes_buffers:
  assumes "\<And>s. SZ (state_of (f s)) = SZ s"
    and "\<And>s h. map_option bsize (dev (state_of (f s)) h) = map_option bsize (dev s h)"
    and "\<And>s. \<exists>evs. trace (state_of (f s)) = trace s @ evs \<and> created_sizes evs = []"
  shows "keeps_sizes f"
proof (rule keeps_sizesI)
  fix s
  show "SZ (state_of (f s)) = SZ s" by (rule assms(1))
  show "buffers_sized s \<Longrightarrow> buffers_sized (state_of (f s))"
    by (rule buffers_sized_sizes [OF assms(2) assms(1)])
  obtain evs where "trace (state_of (f s)) = trace s @ evs" "created_sizes evs = []"
    using assms(3) [of s] by blast
  then show "\<exists>evs. trace (state_of (f s)) = trace s @ evs
          \<and> list_all (\<lambda>n. n = unat (SZ_bytes s)) (created_sizes evs)"
    by (intro exI [of _ evs]) simp
qed

lemma keeps_dispatch: "keeps_sizes (\<lambda>s. ignore (clEnqueueNDRangeKernel e (g s) s))"
  by (rule keeps_sizes_same) (simp_all add: dispatch_state)

lemma wait_state:
  "SZ (state_of (clWaitForEvents e s)) = SZ s"
  "trace (state_of (clWaitForEvents e s)) = trace s @ [WaitForEvents]"
  "map_option bsize (dev (state_of (clWaitForEvents e s)) h) = map_option bsize (dev s h)"
proof -
  let ?s1 = "log WaitForEvents s"
  let ?r = "state_of (clWaitForEvents e s)"
  have s1: "SZ ?s1 = SZ s" "trace ?s1 = trace s @ [WaitForEvents]" "dev ?s1 = dev s"
    by (simp_all add: log_def)
  have "?r = ?s1 \<or> (\<exists>s2. run_pending e ?s1 = Some s2 \<and> ?r = s2)"
    by (cases "run_pending e ?s1") (simp_all add: clWaitForEvents_def Let_def)
  then consider (plain) "?r = ?s1" | (waited) s2 where "run_pending e ?s1 = Some s2" "?r = s2"
    by blast
  note cases = this
  show "SZ ?r = SZ s"
  proof (cases rule: cases)
    case plain
    show ?thesis by (simp only: plain s1)
  next
    case waited
    show ?thesis by (simp only: waited(2) run_pending_keeps(1) [OF waited(1)] s1)
  qed
  show "trace ?r = trace s @ [WaitForEvents]"
  proof (cases rule: cases)
    case plain
    show ?thesis by (simp only: plain s1)
  next
    case waited
    show ?thesis by (simp only: waited(2) run_pending_keeps(2) [OF waited(1)] s1)
  qed
  show "map_option bsize (dev ?r h) = map_option bsize (dev s h)"
  proof (cases rule: cases)
    case plain
    show ?thesis by (simp only: plain s1)
  next
    case waited
    show ?thesis by (simp only: waited(2) run_pending_keeps(3) [OF waited(1)] s1)
  qed
qed

lemma keeps_wait: "keeps_sizes (\<lambda>s. ignore (clWaitForEvents e s))"
  by (rule keeps_sizes_buffers) (simp_all add: wait_state)

lemma read_buffer_state:
  "SZ (state_of (clEnqueueReadBuffer e buf bytes A s)) = SZ s"
  "trace (state_of (clEnqueueReadBuffer e buf bytes A s))
     = trace s @ [EnqueueReadBuffer buf (unat bytes)]"
  "map_option bsize (dev (state_of (clEnqueueReadBuffer e buf bytes A s)) h)
     = map_option bsize (dev s h)"
proof -
  let ?s0 = "log (EnqueueReadBuffer buf (unat bytes)) s"
  let ?r = "state_of (clEnqueueReadBuffer e buf bytes A s)"
  have s0: "SZ ?s0 = SZ s" "trace ?s0 = trace s @ [EnqueueReadBuffer buf (unat bytes)]"
    "dev ?s0 = dev s"
    by (simp_all add: log_def)
  have "?r = ?s0 \<or> (\<exists>s1. run_pending e ?s0 = Some s1
      \<and> (?r = s1 \<or> (\<exists>xs. ?r = set_vec A xs s1)))"
    by (cases "run_pending e ?s0")
       (auto simp: clEnqueueReadBuffer_def Let_def split: option.splits)
  then consider (plain) "?r = ?s0"
    | (synced) s1 where "run_pending e ?s0 = Some s1" "?r = s1"
    | (copied) s1 xs where "run_pending e ?s0 = Some s1" "?r = set_vec A xs s1"
    by blast
  note cases = this
  have sv: "\<And>xs s1. SZ (set_vec A xs s1) = SZ s1" "\<And>xs s1. trace (set_vec A xs s1) = trace s1"
    "\<And>xs s1. dev (set_vec A xs s1) = dev s1"
    by (cases A; simp)+
  show "SZ ?r = SZ s"
  proof (cases rule: cases)
    case plain
    show ?thesis by (simp only: plain s0)
  next
    case synced
    show ?thesis by (simp only: synced(2) run_pending_keeps(1) [OF synced(1)] s0)
  next
    case copied
    show ?thesis by (simp only: copied(2) sv run_pending_keeps(1) [OF copied(1)] s0)
  qed
  show "trace ?r = trace s @ [EnqueueReadBuffer buf (unat bytes)]"
  proof (cases rule: cases)
    case plain
    show ?thesis by (simp only: plain s0)
  next
    case synced
    show ?thesis by (simp only: synced(2) run_pending_keeps(2) [OF synced(1)] s0)
  next
    case copied
    show ?thesis by (simp only: copied(2) sv run_pending_keeps(2) [OF copied(1)] s0)
  qed
  show "map_option bsize (dev ?r h) = map_option bsize (dev s h)"
  proof (cases rule: cases)
    case plain
    show ?thesis by (simp only: plain s0)
  next
    case synced
    show ?thesis by (simp only: synced(2) run_pending_keeps(3) [OF synced(1)] s0)
  next
    case copied
    show ?thesis by (simp only: copied(2) sv run_pending_keeps(3) [OF copied(1)] s0)
  qed
qed

lemma keeps_read:
  "keeps_sizes (\<lambda>s. ignore (clEnqueueReadBuffer e (buf s) (SZ_bytes s) A s))"
  by (rule keeps_sizes_buffers) (simp_all add: read_buffer_state)

lemma release_state:
  "SZ (state_of (clReleaseMemObject buf s)) = SZ s"
  "trace (state_of (clReleaseMemObject buf s)) = trace s @ [ReleaseMemObject buf]"
  "dev (state_of (clReleaseMemObject buf s)) h = Some b \<Longrightarrow> dev s h = Some b"
  by (auto simp: clReleaseMemObject_def Let_def log_def split: option.splits if_splits)

lemma keeps_release: "keeps_sizes (\<lambda>s. ignore (clReleaseMemObject (buf s) s))"
proof (rule keeps_sizesI)
  fix s
  show "SZ (state_of (ignore (clReleaseMemObject (buf s) s))) = SZ s"
    by (simp add: release_state)
  show "\<exists>evs. trace (state_of (ignore (clReleaseMemObject (buf s) s))) = trace s @ evs
          \<and> list_all (\<lambda>n. n = unat (SZ_bytes s)) (created_sizes evs)"
    by (simp add: release_state)
  assume "buffers_sized s"
  then show "buffers_sized (state_of (ignore (clReleaseMemObject (buf s) s)))"
    unfolding buffers_sized_def
    using release_state(3) [of "buf s" s] by (simp add: SZ_bytes_def release_state(1)) blast
qed

lemma keeps_free: "keeps_sizes (c_free A)"
  by (rule keeps_sizes_same) (simp_all add: c_free_def log_def)

lemma keeps_flat: "list_all keeps_sizes (tl (main_flat e argv))"
  by (simp add: main_flat_def main_host_def main_inits_def setup_kernel_memory_body_def
      copy_kernel_args_body_def main_dispatch_def main_report_def free_memory_body_def
      keeps_init keeps_print keeps_setup keeps_create_bufs keeps_write keeps_set_arg keeps_check
      keeps_check_err keeps_dispatch keeps_wait keeps_read keeps_release keeps_free keeps_log)

lemma seq_keeps:
  assumes "list_all keeps_sizes fs" and "sizes_inv s"
  shows "sizes_inv (state_of (seq fs s))"
proof (rule seq_preserves [where P = sizes_inv])
  show "sizes_inv s" by (rule assms(2))
next
  fix f :: "state \<Rightarrow> unit result" and s' :: state
  assume "f \<in> set fs" and "sizes_inv s'"
  then show "sizes_inv (state_of (f s'))"
    using assms(1) by (simp add: list_all_iff keeps_sizes_def)
qed

lemma list_all_take: "list_all P xs \<Longrightarrow> list_all P (take k xs)"
  by (auto simp: list_all_iff dest: in_set_takeD)

lemma sizes_inv_start:
  "sizes_inv initial" "sizes_inv (initial\<lparr>SZ := z\<rparr>)"
  by (simp_all add: sizes_inv_def buffers_sized_def initial_def)

lemma main_flat_Cons:
  "main_flat e argv =
     (\<lambda>s. Returns () (if 1 < length argv then s\<lparr>SZ := atoi e (argv ! 1)\<rparr> else s))
     # tl (main_flat e argv)"
  by (simp add: main_flat_def main_host_def main_inits_def)

lemma result_case_id:
  "(case r of Returns u s' \<Rightarrow> Returns () s' | Exits c s' \<Rightarrow> Exits c s' | Crashes s' \<Rightarrow> Crashes s')
     = (r :: unit result)"
  by (cases r) simp_all

lemma seq_single: "seq [f] s = f s"
  by (cases "f s") simp_all

lemma seq_Cons_seq: "seq (seq fs # gs) s = seq (fs @ gs) s"
  by (simp add: seq_append)

lemma seq_append_seq: "seq (xs @ seq fs # gs) s = seq (xs @ fs @ gs) s"
  by (simp add: seq_append split: result.splits)

lemma main_flat_is_main_body: "seq (main_flat e argv) s = seq (main_body e argv) s"
proof -
  have "main_body e argv =
      main_host e argv @ seq (setup_kernel_memory_body e) # seq (copy_kernel_args_body e)
        # (main_dispatch e @ main_report @ [seq free_memory_body])"
    by (simp add: main_body_def main_to_readback_def main_after_readback_def
        setup_kernel_memory_def copy_kernel_args_def free_memory_def)
  then have "seq (main_body e argv) s =
      seq (main_host e argv @ setup_kernel_memory_body e @ seq (copy_kernel_args_body e)
        # (main_dispatch e @ main_report @ [seq free_memory_body])) s"
    by (simp only: seq_append_seq)
  also have "\<dots> =
      seq ((main_host e argv @ setup_kernel_memory_body e) @ copy_kernel_args_body e
        @ (main_dispatch e @ main_report @ [seq free_memory_body])) s"
    using seq_append_seq [of "main_host e argv @ setup_kernel_memory_body e"] by simp
  also have "\<dots> =
      seq ((main_host e argv @ setup_kernel_memory_body e @ copy_kernel_args_body e
        @ main_dispatch e @ main_report) @ free_memory_body @ []) s"
    using seq_append_seq [of "main_host e argv @ setup_kernel_memory_body e
        @ copy_kernel_args_body e @ main_dispatch e @ main_report" free_memory_body "[]" s]
    by simp
  finally show ?thesis by (simp add: main_flat_def)
qed

text \<open>
  Claim C9. The list \<open>main_flat\<close> is the program (it runs as \<open>main_body\<close> does), and
  after any number of its statements, however the run has gone, every buffer in the device
  memory has the byte size \<open>SZ * sizeof(int)\<close> (computed in \<open>size_t\<close>, which is
  \<open>4 * SZ\<close> for \<open>SZ \<ge> 0\<close>; lemma \<open>unat_SZ_bytes\<close>), and every size given to
  \<open>clCreateBuffer\<close> so far was that size. The three buffers are the only ones created, and
  no call of the program changes the size of a buffer.
\<close>

theorem buffer_size_invariant:
  "seq (main_flat e argv) initial = seq (main_body e argv) initial
     \<and> sizes_inv (state_of (seq (take k (main_flat e argv)) initial))"
proof
  show "seq (main_flat e argv) initial = seq (main_body e argv) initial"
    by (rule main_flat_is_main_body)
  show "sizes_inv (state_of (seq (take k (main_flat e argv)) initial))"
  proof (cases k)
    case 0
    then show ?thesis by (simp add: sizes_inv_start)
  next
    case (Suc j)
    let ?s0 = "if 1 < length argv then initial\<lparr>SZ := atoi e (argv ! 1)\<rparr> else initial"
    have "take k (main_flat e argv) =
       (\<lambda>s. Returns () (if 1 < length argv then s\<lparr>SZ := atoi e (argv ! 1)\<rparr> else s))
       # take j (tl (main_flat e argv))"
      by (subst main_flat_Cons) (simp add: Suc)
    then have "seq (take k (main_flat e argv)) initial = seq (take j (tl (main_flat e argv))) ?s0"
      by simp
    moreover have "sizes_inv ?s0" by (simp add: sizes_inv_start)
    moreover have "list_all keeps_sizes (take j (tl (main_flat e argv)))"
      by (rule list_all_take [OF keeps_flat])
    ultimately show ?thesis by (simp add: seq_keeps)
  qed
qed

lemma good_env_allocated:
  "exit_code (seq (take 10 (main_flat good_env [''add'', ''3''])) initial) = None"
  "\<not> crashed (seq (take 10 (main_flat good_env [''add'', ''3''])) initial)"
  "map_option bsize (dev (state_of (seq (take 10 (main_flat good_env [''add'', ''3''])) initial)) 0) = Some 12"
  "map_option bsize (dev (state_of (seq (take 10 (main_flat good_env [''add'', ''3''])) initial)) 1) = Some 12"
  "map_option bsize (dev (state_of (seq (take 10 (main_flat good_env [''add'', ''3''])) initial)) 2) = Some 12"
  "created_sizes (trace (state_of (seq (take 10 (main_flat good_env [''add'', ''3''])) initial))) = [12, 12, 12]"
  "unat (SZ_bytes (state_of (seq (take 10 (main_flat good_env [''add'', ''3''])) initial))) = 12"
  by code_simp+

theorem buffer_size_invariant_witness:
  "sizes_inv (state_of (seq (take 10 (main_flat good_env [''add'', ''3''])) initial))
   \<and> map_option bsize (dev (state_of (seq (take 10 (main_flat good_env [''add'', ''3''])) initial)) 0) = Some 12
   \<and> map_option bsize (dev (state_of (seq (take 10 (main_flat good_env [''add'', ''3''])) initial)) 1) = Some 12
   \<and> map_option bsize (dev (state_of (seq (take 10 (main_flat good_env [''add'', ''3''])) initial)) 2) = Some 12
   \<and> created_sizes (trace (state_of (seq (take 10 (main_flat good_env [''add'', ''3''])) initial))) = [12, 12, 12]
   \<and> unat (SZ_bytes (state_of (seq (take 10 (main_flat good_env [''add'', ''3''])) initial))) = 12"
  using buffer_size_invariant [of good_env "[''add'', ''3'']" 10] good_env_allocated(3-7)
  by blast

subsection \<open>The run up to the read-back\<close>

lemma print_Returns:
  assumes "print A sz s = Returns () s'"
  shows "\<exists>str. s' = printf str s"
  using print_only_stdout [of A sz s] assms by simp

lemma inits_Returns:
  assumes "seq (main_inits e argv) initial = Returns () s"
  shows "dev s = Map.empty" "kargs s = Map.empty" "n_buf s = 0"
    and "1 \<le> sint (SZ s) \<Longrightarrow>
      \<exists>X Y Z. v1 s = Some X \<and> v2 s = Some Y \<and> v_out s = Some Z
        \<and> length X = nat (sint (SZ s)) \<and> length Y = nat (sint (SZ s))
        \<and> length Z = nat (sint (SZ s))"
proof -
  let ?s0 = "if 1 < length argv then initial\<lparr>SZ := atoi e (argv ! 1)\<rparr> else initial"
  from assms obtain sa sb where
    a: "init e V1 (SZ ?s0) ?s0 = Returns () sa" and
    b: "init e V2 (SZ sa) sa = Returns () sb" and
    c: "init e V_OUT (SZ sb) sb = Returns () s"
    unfolding main_inits_def by (auto simp add: seq_Cons_Returns simp del: seq.simps(2))
  have sa: "sa = state_of (init e V1 (SZ ?s0) ?s0)" using a by simp
  have sb: "sb = state_of (init e V2 (SZ sa) sa)" using b by simp
  have sc: "s = state_of (init e V_OUT (SZ sb) sb)" using c by simp
  have z: "SZ sb = SZ s" "SZ sa = SZ s" "SZ ?s0 = SZ s"
    by (simp_all add: sa sb sc init_device_untouched)
  have d0: "dev ?s0 = Map.empty" "kargs ?s0 = Map.empty" "n_buf ?s0 = 0"
    by (simp_all add: initial_def)
  show "dev s = Map.empty" "kargs s = Map.empty" "n_buf s = 0"
    using d0 by (simp_all add: sa sb sc init_device_untouched)
  assume n: "1 \<le> sint (SZ s)"
  obtain X where X: "get_vec V1 sa = Some X" "length X = nat (sint (SZ s))"
    using init_Returns_vec [OF a] n z by auto
  obtain Y where Y: "get_vec V2 sb = Some Y" "length Y = nat (sint (SZ s))"
    using init_Returns_vec [OF b] n z by auto
  obtain Z where Z: "get_vec V_OUT s = Some Z" "length Z = nat (sint (SZ s))"
    using init_Returns_vec [OF c] n z by auto
  have "get_vec V1 s = get_vec V1 sa"
    by (simp only: sc sb init_other_vec [of V1 V_OUT] init_other_vec [of V1 V2] vec.distinct
        not_False_eq_True)
  moreover have "get_vec V2 s = get_vec V2 sb"
    by (simp only: sc init_other_vec [of V2 V_OUT] vec.distinct not_False_eq_True)
  ultimately show "\<exists>X Y Z. v1 s = Some X \<and> v2 s = Some Y \<and> v_out s = Some Z
        \<and> length X = nat (sint (SZ s)) \<and> length Y = nat (sint (SZ s))
        \<and> length Z = nat (sint (SZ s))"
    using X Y Z by simp
qed

lemma keeps_bodies:
  "list_all keeps_sizes (setup_kernel_memory_body e)"
  "list_all keeps_sizes (copy_kernel_args_body e)"
  "list_all keeps_sizes (main_dispatch e)"
  by (simp_all add: setup_kernel_memory_body_def copy_kernel_args_body_def main_dispatch_def
      keeps_create_bufs keeps_write keeps_set_arg keeps_check keeps_check_err keeps_dispatch
      keeps_wait keeps_read keeps_log)

lemma seq_keeps_SZ:
  assumes "list_all keeps_sizes fs"
  shows "SZ (state_of (seq fs s)) = SZ s"
proof (rule seq_preserves [where P = "\<lambda>s'. SZ s' = SZ s"])
  show "SZ s = SZ s" ..
next
  fix f :: "state \<Rightarrow> unit result" and s' :: state
  assume "f \<in> set fs" and "SZ s' = SZ s"
  then show "SZ (state_of (f s')) = SZ s"
    using assms by (simp add: list_all_iff keeps_sizes_def)
qed

lemma readback_sum:
  assumes run: "seq (main_to_readback e argv) initial = Returns () s"
    and n: "1 \<le> sint (SZ s)"
    and w: "\<forall>h. write_status e h = CL_SUCCESS"
    and a: "\<forall>i. setarg_status e i = CL_SUCCESS"
    and d: "ndrange_status e = CL_SUCCESS"
    and wt: "wait_status e = CL_SUCCESS"
    and r: "read_status e = CL_SUCCESS"
  shows "\<exists>X Y Z. v1 s = Some X \<and> v2 s = Some Y \<and> v_out s = Some Z
     \<and> length X = nat (sint (SZ s)) \<and> length Y = nat (sint (SZ s))
     \<and> length Z = nat (sint (SZ s))
     \<and> (\<forall>i<nat (sint (SZ s)). Z ! i = X ! i + Y ! i)"
proof -
  let ?stp = "setup_openCL_device_context_queue_kernel e ''./vector_ops_ocl.cl'' ''vector_add_ocl''"
  from run obtain s4 s5 s6 s7 s8 s9 s10 where
    i4: "seq (main_inits e argv) initial = Returns () s4" and
    p5: "print (v1 s4) (SZ s4) s4 = Returns () s5" and
    p6: "print (v2 s5) (SZ s5) s5 = Returns () s6" and
    s7: "?stp s6 = Returns () s7" and
    s8: "setup_kernel_memory e s7 = Returns () s8" and
    s9: "copy_kernel_args e s8 = Returns () s9" and
    s10: "seq (main_dispatch e) s9 = Returns () s"
    unfolding main_to_readback_def main_host_def
    by (auto simp add: seq_append_Returns seq_Cons_Returns simp del: seq.simps(2))
  \<comment> \<open>the vector length is the same at every point\<close>
  obtain o5 where o5: "s5 = printf o5 s4" using print_Returns [OF p5] by blast
  obtain o6 where o6: "s6 = printf o6 s5" using print_Returns [OF p6] by blast
  have m7: "same_memory s6 s7" and e7: "0 \<le> err s7" using setup_Returns [OF s7] by simp_all
  have z8: "SZ s8 = SZ s7"
    using seq_keeps_SZ [OF keeps_bodies(1), of e s7] s8 by (simp add: setup_kernel_memory_def)
  have z9: "SZ s9 = SZ s8"
    using seq_keeps_SZ [OF keeps_bodies(2), of e s8] s9 by (simp add: copy_kernel_args_def)
  have z10: "SZ s = SZ s9"
    using seq_keeps_SZ [OF keeps_bodies(3), of e s9] s10 by simp
  have z7: "SZ s7 = SZ s4" "v1 s7 = v1 s4" "v2 s7 = v2 s4" "v_out s7 = v_out s4"
    "dev s7 = Map.empty" "kargs s7 = Map.empty" "n_buf s7 = 0"
    using m7 o5 o6 inits_Returns(1-3) [OF i4] by (simp_all add: same_memory_def printf_def)
  have z: "SZ s7 = SZ s" by (simp add: z10 z9 z8)
  let ?n = "nat (sint (SZ s7))"
  have n7: "1 \<le> sint (SZ s7)" using n z by simp
  have n4: "1 \<le> sint (SZ s4)" using n z z7(1) by simp
  obtain X Y Z where v: "v1 s7 = Some X" "v2 s7 = Some Y" "v_out s7 = Some Z"
    and len: "length X = ?n" "length Y = ?n" "length Z = ?n"
    using inits_Returns(4) [OF i4 n4] z7 by auto
  \<comment> \<open>the three buffers and the upload\<close>
  have bytes: "unat (SZ_bytes s7) = 4 * ?n" using n7 by (simp add: unat_SZ_bytes)
  have okc: "buffer_ok e (n_buf s7) \<and> buffer_ok e (Suc (n_buf s7))
      \<and> buffer_ok e (Suc (Suc (n_buf s7))) \<and> SZ_bytes s7 \<noteq> 0"
  proof (rule ccontr)
    assume "\<not> ?thesis"
    then have "exit_code (setup_kernel_memory e s7) = Some 1" by (rule setup_kernel_memory_fails)
    then show False using s8 by simp
  qed
  let ?s8 = "s7\<lparr>n_buf := n_buf s7 + 3,
       trace := trace s7 @ [CreateBuffer (unat (SZ_bytes s7)), CreateBuffer (unat (SZ_bytes s7)),
         CreateBuffer (unat (SZ_bytes s7)),
         EnqueueWriteBuffer (Some (n_buf s7)) (unat (SZ_bytes s7)),
         EnqueueWriteBuffer (Some (Suc (n_buf s7))) (unat (SZ_bytes s7))],
       bufV1 := Some (n_buf s7), bufV2 := Some (Suc (n_buf s7)),
       bufV_out := Some (Suc (Suc (n_buf s7))),
       dev := (dev s7)(n_buf s7 \<mapsto> \<lparr>bsize = unat (SZ_bytes s7), bdata = X\<rparr>,
                 Suc (n_buf s7) \<mapsto> \<lparr>bsize = unat (SZ_bytes s7), bdata = Y\<rparr>,
                 Suc (Suc (n_buf s7)) \<mapsto>
                   \<lparr>bsize = unat (SZ_bytes s7), bdata = fresh_block e (SZ_bytes s7)\<rparr>)\<rparr>"
  have "setup_kernel_memory e s7 = Returns () ?s8"
    using okc v len w by (intro setup_kernel_memory_ok) (simp_all add: bytes)
  then have e8: "s8 = ?s8" using s8 by simp
  have f8: "bufV1 s8 = Some 0" "bufV2 s8 = Some 1" "bufV_out s8 = Some 2"
    "dev s8 0 = Some \<lparr>bsize = 4 * ?n, bdata = X\<rparr>"
    "dev s8 1 = Some \<lparr>bsize = 4 * ?n, bdata = Y\<rparr>"
    "dev s8 2 = Some \<lparr>bsize = 4 * ?n, bdata = fresh_block e (SZ_bytes s7)\<rparr>"
    "v1 s8 = Some X" "v2 s8 = Some Y" "v_out s8 = Some Z" "err s8 = err s7"
    by (simp_all add: e8 z7(5-7) v bytes)
  \<comment> \<open>the arguments\<close>
  have "copy_kernel_args e s8 = Returns ()
    (s8\<lparr>trace := trace s8 @ [SetKernelArg 0, SetKernelArg 1, SetKernelArg 2, SetKernelArg 3],
       kargs := (kargs s8)(0 \<mapsto> ArgInt (SZ s8), 1 \<mapsto> ArgMem (bufV1 s8),
                   2 \<mapsto> ArgMem (bufV2 s8), 3 \<mapsto> ArgMem (bufV_out s8))\<rparr>)"
    using a e7 f8(10) by (intro copy_kernel_args_ok) simp_all
  then have e9: "s9 = s8\<lparr>trace := trace s8 @ [SetKernelArg 0, SetKernelArg 1, SetKernelArg 2, SetKernelArg 3],
       kargs := (kargs s8)(0 \<mapsto> ArgInt (SZ s8), 1 \<mapsto> ArgMem (bufV1 s8),
                   2 \<mapsto> ArgMem (bufV2 s8), 3 \<mapsto> ArgMem (bufV_out s8))\<rparr>"
    using s9 by simp
  have f9: "kargs s9 0 = Some (ArgInt (SZ s8))" "kargs s9 1 = Some (ArgMem (Some 0))"
    "kargs s9 2 = Some (ArgMem (Some 1))" "kargs s9 3 = Some (ArgMem (Some 2))"
    "dev s9 = dev s8" "v1 s9 = Some X" "v2 s9 = Some Y" "v_out s9 = Some Z"
    "bufV_out s9 = Some 2"
    by (simp_all add: e9 f8)
  \<comment> \<open>dispatch, wait and read-back\<close>
  let ?s10 = "log ClockNow s9"
  from s10 obtain s11 s12 where
    s11: "ignore (clEnqueueNDRangeKernel e (scast (SZ ?s10)) ?s10) = Returns () s11" and
    s12: "ignore (clWaitForEvents e s11) = Returns () s12" and
    s13: "ignore (clEnqueueReadBuffer e (bufV_out s12) (SZ_bytes s12) V_OUT s12) = Returns () s"
    unfolding main_dispatch_def
    by (auto simp add: seq_Cons_Returns simp del: seq.simps(2))
  have z10': "SZ ?s10 = SZ s9" by (simp add: log_def)
  have g: "unat (scast (SZ s9) :: size_t) = ?n"
    using n7 z8 z9 by (simp add: unat_scast_nonneg)
  have lf: "length (fresh_block e (SZ_bytes s7)) = ?n"
    by (simp add: fresh_block_def bytes)
  let ?C = "\<lparr>bsize = 4 * ?n, bdata = fresh_block e (SZ_bytes s7)\<rparr>"
  let ?sum = "map (\<lambda>i. X ! i + Y ! i) [0..<?n]"
  have "ignore (clEnqueueNDRangeKernel e (scast (SZ ?s10)) ?s10) = Returns ()
    (?s10\<lparr>trace := trace ?s10 @ [EnqueueNDRangeKernel (unat (scast (SZ ?s10) :: size_t))],
       pending := Some (SZ s8, Some 0, Some 1, Some 2, unat (scast (SZ ?s10) :: size_t)),
       cl_event := True\<rparr>)"
    using d f9 by (intro dispatch_ok) (simp_all add: log_def)
  then have e11: "s11 = ?s10\<lparr>trace := trace ?s10 @ [EnqueueNDRangeKernel ?n],
       pending := Some (SZ s8, Some 0, Some 1, Some 2, ?n), cl_event := True\<rparr>"
    using s11 by (simp add: z10' g)
  have f11: "cl_event s11" "pending s11 = Some (SZ s8, Some 0, Some 1, Some 2, ?n)"
    "dev s11 0 = Some \<lparr>bsize = 4 * ?n, bdata = X\<rparr>"
    "dev s11 1 = Some \<lparr>bsize = 4 * ?n, bdata = Y\<rparr>" "dev s11 2 = Some ?C"
    using f8(4-6) by (simp_all add: e11 log_def f9)
  have "ignore (clWaitForEvents e s11) = Returns ()
    (s11\<lparr>trace := trace s11 @ [WaitForEvents],
       dev := (dev s11)(2 \<mapsto> ?C\<lparr>bdata := map (\<lambda>i. bdata \<lparr>bsize = 4 * ?n, bdata = X\<rparr> ! i
                                             + bdata \<lparr>bsize = 4 * ?n, bdata = Y\<rparr> ! i)
                                        [0..<?n]
                                 @ drop ?n (bdata ?C)\<rparr>),
       pending := None\<rparr>)"
    using f11 wt len lf
    by (intro wait_ok [where n = "SZ s8" and a = 0 and b = 1]) simp_all
  then have e12: "s12 = s11\<lparr>trace := trace s11 @ [WaitForEvents],
       dev := (dev s11)(2 \<mapsto> \<lparr>bsize = 4 * ?n, bdata = ?sum\<rparr>), pending := None\<rparr>"
    using s12 by (simp add: lf)
  have f12: "bufV_out s12 = Some 2" "dev s12 2 = Some \<lparr>bsize = 4 * ?n, bdata = ?sum\<rparr>"
    "v1 s12 = Some X" "v2 s12 = Some Y" "v_out s12 = Some Z" "SZ_bytes s12 = SZ_bytes s7"
    "pending s12 = None"
    by (simp_all add: e12 e11 f9 log_def SZ_bytes_def z8 z9)
  have "ignore (clEnqueueReadBuffer e (Some 2) (SZ_bytes s12) V_OUT s12) = Returns ()
    (s12\<lparr>trace := trace s12 @ [EnqueueReadBuffer (Some 2) (unat (SZ_bytes s12))],
       v_out := Some (take (unat (SZ_bytes s12) div 4) (bdata \<lparr>bsize = 4 * ?n, bdata = ?sum\<rparr>)
                      @ drop (unat (SZ_bytes s12) div 4) Z)\<rparr>)"
    using r f12 len by (intro readback_ok) (simp_all add: bytes)
  then have e13: "s = s12\<lparr>trace := trace s12 @ [EnqueueReadBuffer (Some 2) (4 * ?n)],
       v_out := Some ?sum\<rparr>"
    using s13 f12 len by (simp add: bytes)
  have fin: "v1 s = Some X" "v2 s = Some Y" "v_out s = Some ?sum"
    unfolding e13 by (simp_all add: f12(3,4))
  have sum: "length ?sum = ?n" "\<forall>i<?n. ?sum ! i = X ! i + Y ! i"
    by simp_all
  show ?thesis
    using fin len sum unfolding z by blast
qed

lemma run_summary_iff:
  "run_summary r = ((x, c), z, a, b, out, t) \<longleftrightarrow>
     exit_code r = x \<and> crashed r = c \<and> SZ (state_of r) = z \<and> v1 (state_of r) = a
     \<and> v2 (state_of r) = b \<and> v_out (state_of r) = out \<and> trace (state_of r) = t"
  by (cases r) (auto simp: run_summary_def)

lemma good_env_readback:
  "run_summary (seq (main_to_readback good_env [''add'', ''3'']) initial) =
     ((None, False), 3, Some [99, 42, 99], Some [42, 99, 42], Some [141, 141, 141],
      [Malloc 12, Malloc 12, Malloc 12, GetPlatformIDs, GetDeviceIDs CL_DEVICE_TYPE_GPU,
       CreateContext, Fopen ''./vector_ops_ocl.cl'', Malloc 2, CreateProgramWithSource, Free,
       BuildProgram, CreateCommandQueue, CreateKernel ''vector_add_ocl'',
       CreateBuffer 12, CreateBuffer 12, CreateBuffer 12,
       EnqueueWriteBuffer (Some 0) 12, EnqueueWriteBuffer (Some 1) 12,
       SetKernelArg 0, SetKernelArg 1, SetKernelArg 2, SetKernelArg 3, ClockNow,
       EnqueueNDRangeKernel 3, WaitForEvents, EnqueueReadBuffer (Some 2) 12])"
  by code_simp

lemma release_returns:
  "ignore (clReleaseMemObject b s) = Returns () (state_of (clReleaseMemObject b s))"
  by (simp add: clReleaseMemObject_def ignore_def Let_def split: option.splits)

lemma release_fields:
  "bufV1 (state_of (clReleaseMemObject b s)) = bufV1 s"
  "bufV2 (state_of (clReleaseMemObject b s)) = bufV2 s"
  "bufV_out (state_of (clReleaseMemObject b s)) = bufV_out s"
  by (simp_all add: clReleaseMemObject_def Let_def log_def split: option.splits)

lemma free_memory_returns:
  "\<exists>s'. free_memory s = Returns () s' \<and> SZ s' = SZ s
     \<and> trace s' = trace s @ [ReleaseMemObject (bufV1 s), ReleaseMemObject (bufV2 s),
         ReleaseMemObject (bufV_out s), ReleaseKernel, ReleaseCommandQueue, ReleaseProgram,
         ReleaseContext, Free, Free, Free]"
  by (simp add: free_memory_def free_memory_body_def release_returns release_fields
      release_state c_free_def log_def)

lemma after_readback_returns:
  assumes "v_out s = Some Z" and "sint (SZ s) = int (length Z)"
  shows "\<exists>s'. seq main_after_readback s = Returns () s' \<and> SZ s' = SZ s
     \<and> trace s' = trace s @ [ClockNow, PrintElapsed, ReleaseMemObject (bufV1 s),
         ReleaseMemObject (bufV2 s), ReleaseMemObject (bufV_out s), ReleaseKernel,
         ReleaseCommandQueue, ReleaseProgram, ReleaseContext, Free, Free, Free]"
proof -
  obtain str where p: "print (v_out s) (SZ s) s = Returns () (printf str s)"
    using print_whole_array [OF assms(2), of s] assms(1) by auto
  let ?s2 = "log PrintElapsed (log ClockNow (printf str s))"
  obtain s' where f: "free_memory ?s2 = Returns () s'" "SZ s' = SZ ?s2"
    "trace s' = trace ?s2 @ [ReleaseMemObject (bufV1 ?s2), ReleaseMemObject (bufV2 ?s2),
         ReleaseMemObject (bufV_out ?s2), ReleaseKernel, ReleaseCommandQueue, ReleaseProgram,
         ReleaseContext, Free, Free, Free]"
    using free_memory_returns [of ?s2] by blast
  have "seq main_after_readback s = Returns () s'"
    by (simp add: main_after_readback_def main_report_def p f(1))
  moreover have "SZ s' = SZ s" using f(2) by (simp add: log_def printf_def)
  moreover have "trace s' = trace s @ [ClockNow, PrintElapsed, ReleaseMemObject (bufV1 s),
         ReleaseMemObject (bufV2 s), ReleaseMemObject (bufV_out s), ReleaseKernel,
         ReleaseCommandQueue, ReleaseProgram, ReleaseContext, Free, Free, Free]"
    using f(3) by (simp add: log_def printf_def)
  ultimately show ?thesis by blast
qed

lemma main_Returns_iff:
  "main e argv = Returns c sf \<longleftrightarrow>
     c = 0 \<and> (\<exists>s. seq (main_to_readback e argv) initial = Returns () s
               \<and> seq main_after_readback s = Returns () sf)"
  by (auto simp: main_def main_body_def seq_append split: result.splits)

lemma after_readback_SZ:
  assumes "seq main_after_readback s = Returns () s'"
  shows "SZ s' = SZ s"
proof -
  have "list_all keeps_sizes (main_report @ free_memory_body)"
    by (simp add: main_report_def free_memory_body_def keeps_print keeps_log keeps_release
        keeps_free)
  then have "SZ (state_of (seq (main_report @ free_memory_body) s)) = SZ s"
    by (rule seq_keeps_SZ)
  moreover have "seq (main_report @ free_memory_body) s = seq main_after_readback s"
    using seq_append_seq [of main_report free_memory_body "[]" s]
    by (simp add: main_after_readback_def free_memory_def)
  ultimately show ?thesis using assms by simp
qed

lemma completes:
  assumes "run_summary (seq (main_to_readback e argv) initial) = ((None, False), z, a, b, Some Z, t)"
    and "sint z = int (length Z)"
  shows "\<exists>s sf. seq (main_to_readback e argv) initial = Returns () s
      \<and> main e argv = Returns 0 sf \<and> SZ sf = z \<and> SZ s = z
      \<and> v1 s = a \<and> v2 s = b \<and> v_out s = Some Z
      \<and> trace sf = t @ [ClockNow, PrintElapsed, ReleaseMemObject (bufV1 s),
         ReleaseMemObject (bufV2 s), ReleaseMemObject (bufV_out s), ReleaseKernel,
         ReleaseCommandQueue, ReleaseProgram, ReleaseContext, Free, Free, Free]"
proof -
  let ?r = "seq (main_to_readback e argv) initial"
  let ?s = "state_of ?r"
  have o: "exit_code ?r = None" "\<not> crashed ?r" "SZ ?s = z" "v1 ?s = a" "v2 ?s = b"
    "v_out ?s = Some Z" "trace ?s = t"
    using assms(1) by (simp_all add: run_summary_iff)
  have r: "?r = Returns () ?s" using o(1,2) by (rule Returns_state_of)
  obtain sf where sf: "seq main_after_readback ?s = Returns () sf" "SZ sf = SZ ?s"
    "trace sf = trace ?s @ [ClockNow, PrintElapsed, ReleaseMemObject (bufV1 ?s),
         ReleaseMemObject (bufV2 ?s), ReleaseMemObject (bufV_out ?s), ReleaseKernel,
         ReleaseCommandQueue, ReleaseProgram, ReleaseContext, Free, Free, Free]"
    using after_readback_returns [of ?s Z] o(3,6) assms(2) by auto
  have "main e argv = Returns 0 sf"
    using r sf(1) by (subst main_Returns_iff) auto
  then show ?thesis using r sf(2,3) o by (intro exI [of _ ?s] exI [of _ sf]) simp
qed

lemma sint_3_length: "sint (3 :: cint) = int (length [a, b, c])"
  by simp

lemma dispatch_fail_env_readback:
  "run_summary (seq (main_to_readback dispatch_fail_env [''add'', ''3'']) initial) =
     ((None, False), 3, Some [99, 42, 99], Some [42, 99, 42], Some [0, 0, 0],
      [Malloc 12, Malloc 12, Malloc 12, GetPlatformIDs, GetDeviceIDs CL_DEVICE_TYPE_GPU,
       CreateContext, Fopen ''./vector_ops_ocl.cl'', Malloc 2, CreateProgramWithSource, Free,
       BuildProgram, CreateCommandQueue, CreateKernel ''vector_add_ocl'',
       CreateBuffer 12, CreateBuffer 12, CreateBuffer 12,
       EnqueueWriteBuffer (Some 0) 12, EnqueueWriteBuffer (Some 1) 12,
       SetKernelArg 0, SetKernelArg 1, SetKernelArg 2, SetKernelArg 3, ClockNow,
       EnqueueNDRangeKernel 3, WaitForEvents, EnqueueReadBuffer (Some 2) 12])"
  by code_simp

lemma bind_fail_env_readback:
  "run_summary (seq (main_to_readback bind_fail_env [''add'', ''3'']) initial) =
     ((None, False), 3, Some [99, 42, 99], Some [42, 99, 42], Some [0, 0, 0],
      [Malloc 12, Malloc 12, Malloc 12, GetPlatformIDs, GetDeviceIDs CL_DEVICE_TYPE_GPU,
       CreateContext, Fopen ''./vector_ops_ocl.cl'', Malloc 2, CreateProgramWithSource, Free,
       BuildProgram, CreateCommandQueue, CreateKernel ''vector_add_ocl'',
       CreateBuffer 12, CreateBuffer 12, CreateBuffer 12,
       EnqueueWriteBuffer (Some 0) 12, EnqueueWriteBuffer (Some 1) 12,
       SetKernelArg 0, SetKernelArg 1, SetKernelArg 2, SetKernelArg 3, ClockNow,
       EnqueueNDRangeKernel 3, WaitForEvents, EnqueueReadBuffer (Some 2) 12])"
  by code_simp

lemma abnormal_end_env_readback:
  "run_summary (seq (main_to_readback abnormal_end_env [''add'', ''3'']) initial) =
     ((None, False), 3, Some [99, 42, 99], Some [42, 99, 42], Some [0, 0, 0],
      [Malloc 12, Malloc 12, Malloc 12, GetPlatformIDs, GetDeviceIDs CL_DEVICE_TYPE_GPU,
       CreateContext, Fopen ''./vector_ops_ocl.cl'', Malloc 2, CreateProgramWithSource, Free,
       BuildProgram, CreateCommandQueue, CreateKernel ''vector_add_ocl'',
       CreateBuffer 12, CreateBuffer 12, CreateBuffer 12,
       EnqueueWriteBuffer (Some 0) 12, EnqueueWriteBuffer (Some 1) 12,
       SetKernelArg 0, SetKernelArg 1, SetKernelArg 2, SetKernelArg 3, ClockNow,
       EnqueueNDRangeKernel 3, WaitForEvents, EnqueueReadBuffer (Some 2) 12])"
  by code_simp

text \<open>
  The wait matters: when the dispatch is accepted and the kernel then ends abnormally, which
  the wait reports and \<open>main\<close> ignores, the run completes with 0 and \<open>v_out\<close> holds
  what the device buffer held before, not the sums.
\<close>

lemma abnormal_end_no_sum:
  "ndrange_status abnormal_end_env = CL_SUCCESS
   \<and> wait_status abnormal_end_env = CL_EXEC_STATUS_ERROR_FOR_EVENTS_IN_WAIT_LIST
   \<and> returned (main abnormal_end_env [''add'', ''3'']) \<noteq> None
   \<and> v1 (state_of (seq (main_to_readback abnormal_end_env [''add'', ''3'']) initial))
       = Some [99, 42, 99]
   \<and> v2 (state_of (seq (main_to_readback abnormal_end_env [''add'', ''3'']) initial))
       = Some [42, 99, 42]
   \<and> v_out (state_of (seq (main_to_readback abnormal_end_env [''add'', ''3'']) initial))
       = Some [0, 0, 0]"
proof -
  obtain sf where m: "main abnormal_end_env [''add'', ''3''] = Returns 0 sf"
    using completes [OF abnormal_end_env_readback sint_3_length] by blast
  have e: "ndrange_status abnormal_end_env = CL_SUCCESS
   \<and> wait_status abnormal_end_env = CL_EXEC_STATUS_ERROR_FOR_EVENTS_IN_WAIT_LIST"
    by (simp add: abnormal_end_env_def good_env_def CL_SUCCESS_def
        CL_EXEC_STATUS_ERROR_FOR_EVENTS_IN_WAIT_LIST_def)
  show ?thesis
    using abnormal_end_env_readback e by (simp add: m run_summary_iff)
qed

text \<open>
  Claim C1, as amended. For every run of \<open>main\<close> that reaches completion with a vector
  length of at least 1, and in which the two uploads, the four argument bindings, the
  dispatch, the wait and the read-back return \<open>CL_SUCCESS\<close> (the program checks none of
  these statuses), the run passes through a state \<open>s\<close> right after the read-back in which
  the three host vectors have the length \<open>n\<close> and \<open>v_out[i] = v1[i] + v2[i]\<close> for every
  \<open>i < n\<close>, with the addition of \<open>int\<close>. The kernel is the one modelled from the
  spec. Without the condition on the statuses the claim fails: a run whose dispatch is
  refused still completes, with \<open>v_out\<close> holding what the device buffer held.
\<close>

theorem vector_sum_after_readback:
  assumes "main e argv = Returns c sf"
    and "1 \<le> sint (SZ sf)"
    and "\<forall>h. write_status e h = CL_SUCCESS"
    and "\<forall>i. setarg_status e i = CL_SUCCESS"
    and "ndrange_status e = CL_SUCCESS"
    and "wait_status e = CL_SUCCESS"
    and "read_status e = CL_SUCCESS"
  shows "\<exists>s X Y Z. seq (main_to_readback e argv) initial = Returns () s
     \<and> v1 s = Some X \<and> v2 s = Some Y \<and> v_out s = Some Z
     \<and> length X = nat (sint (SZ sf)) \<and> length Y = nat (sint (SZ sf))
     \<and> length Z = nat (sint (SZ sf))
     \<and> (\<forall>i<nat (sint (SZ sf)). Z ! i = X ! i + Y ! i)"
proof -
  obtain s where s: "seq (main_to_readback e argv) initial = Returns () s"
    and sf: "seq main_after_readback s = Returns () sf"
    using assms(1) by (auto simp: main_Returns_iff)
  have z: "SZ sf = SZ s" using sf by (rule after_readback_SZ)
  have n: "1 \<le> sint (SZ s)" using assms(2) z by simp
  show ?thesis
    using readback_sum [OF s n assms(3-7)] s unfolding z by blast
qed

theorem vector_sum_after_readback_witness:
  "(\<forall>h. write_status good_env h = CL_SUCCESS)
   \<and> (\<forall>i. setarg_status good_env i = CL_SUCCESS)
   \<and> ndrange_status good_env = CL_SUCCESS \<and> wait_status good_env = CL_SUCCESS
   \<and> read_status good_env = CL_SUCCESS
   \<and> (\<exists>sf. main good_env [''add'', ''3''] = Returns 0 sf \<and> 1 \<le> sint (SZ sf)
        \<and> (\<exists>s X Y Z. seq (main_to_readback good_env [''add'', ''3'']) initial = Returns () s
             \<and> v1 s = Some X \<and> v2 s = Some Y \<and> v_out s = Some Z
             \<and> length X = nat (sint (SZ sf)) \<and> length Y = nat (sint (SZ sf))
             \<and> length Z = nat (sint (SZ sf))
             \<and> (\<forall>i<nat (sint (SZ sf)). Z ! i = X ! i + Y ! i)))"
proof -
  have e: "\<forall>h. write_status good_env h = CL_SUCCESS"
    "\<forall>i. setarg_status good_env i = CL_SUCCESS"
    "ndrange_status good_env = CL_SUCCESS" "wait_status good_env = CL_SUCCESS"
    "read_status good_env = CL_SUCCESS"
    by (simp_all add: good_env_def CL_SUCCESS_def)
  obtain sf where m: "main good_env [''add'', ''3''] = Returns 0 sf" and z: "SZ sf = 3"
    using completes [OF good_env_readback sint_3_length] by blast
  have n: "1 \<le> sint (SZ sf)" by (simp add: z)
  show ?thesis
    using vector_sum_after_readback [OF m n e] e m n by blast
qed

theorem vector_sum_after_readback_counterexample:
  "exit_code (main dispatch_fail_env [''add'', ''3'']) = None
   \<and> \<not> crashed (main dispatch_fail_env [''add'', ''3''])
   \<and> SZ (state_of (seq (main_to_readback dispatch_fail_env [''add'', ''3'']) initial)) = 3
   \<and> v1 (state_of (seq (main_to_readback dispatch_fail_env [''add'', ''3'']) initial))
       = Some [99, 42, 99]
   \<and> v2 (state_of (seq (main_to_readback dispatch_fail_env [''add'', ''3'']) initial))
       = Some [42, 99, 42]
   \<and> v_out (state_of (seq (main_to_readback dispatch_fail_env [''add'', ''3'']) initial))
       = Some [0, 0, 0]
   \<and> [0, 0, 0 :: cint] ! 0 \<noteq> [99, 42, 99] ! 0 + [42, 99, 42] ! 0"
proof -
  obtain sf where m: "main dispatch_fail_env [''add'', ''3''] = Returns 0 sf"
    using completes [OF dispatch_fail_env_readback sint_3_length] by blast
  show ?thesis
    using dispatch_fail_env_readback by (simp add: m run_summary_iff)
qed

lemma copy_kernel_args_exit:
  "exit_code (copy_kernel_args e s) = (if err s < 0 then Some 1 else None)"
  by (simp add: copy_kernel_args_def copy_kernel_args_body_def clSetKernelArg_def ignore_def
      Let_def log_def)

text \<open>
  Claim C2, evaluated where the code breaks it. In an environment in which each of the four
  \<open>clSetKernelArg\<close> calls returns the negative status \<open>CL_INVALID_KERNEL\<close>,
  \<open>main\<close> makes the four calls and neither exits nor crashes: it returns 0. The test in
  \<open>copy_kernel_args\<close> reads the global \<open>err\<close>, to which no bind status is
  assigned (lemma \<open>copy_kernel_args_exit\<close>: the exit depends on \<open>err\<close> alone).
\<close>

theorem copy_kernel_args_bind_failure:
  "setarg_status bind_fail_env 0 < 0 \<and> setarg_status bind_fail_env 1 < 0
   \<and> setarg_status bind_fail_env 2 < 0 \<and> setarg_status bind_fail_env 3 < 0
   \<and> exit_code (main bind_fail_env [''add'', ''3'']) = None
   \<and> \<not> crashed (main bind_fail_env [''add'', ''3''])
   \<and> SetKernelArg 3 \<in> set (trace (state_of (main bind_fail_env [''add'', ''3''])))"
proof -
  from completes [OF bind_fail_env_readback sint_3_length]
  obtain s :: state and sf where m: "main bind_fail_env [''add'', ''3''] = Returns 0 sf"
    and t: "trace sf = [Malloc 12, Malloc 12, Malloc 12, GetPlatformIDs, GetDeviceIDs CL_DEVICE_TYPE_GPU,
       CreateContext, Fopen ''./vector_ops_ocl.cl'', Malloc 2, CreateProgramWithSource, Free,
       BuildProgram, CreateCommandQueue, CreateKernel ''vector_add_ocl'',
       CreateBuffer 12, CreateBuffer 12, CreateBuffer 12,
       EnqueueWriteBuffer (Some 0) 12, EnqueueWriteBuffer (Some 1) 12,
       SetKernelArg 0, SetKernelArg 1, SetKernelArg 2, SetKernelArg 3, ClockNow,
       EnqueueNDRangeKernel 3, WaitForEvents, EnqueueReadBuffer (Some 2) 12]
       @ [ClockNow, PrintElapsed, ReleaseMemObject (bufV1 s), ReleaseMemObject (bufV2 s),
          ReleaseMemObject (bufV_out s), ReleaseKernel, ReleaseCommandQueue, ReleaseProgram,
          ReleaseContext, Free, Free, Free]"
    by blast
  have f: "setarg_status bind_fail_env 0 < 0 \<and> setarg_status bind_fail_env 1 < 0
   \<and> setarg_status bind_fail_env 2 < 0 \<and> setarg_status bind_fail_env 3 < 0"
    by (simp add: bind_fail_env_def)
  have "exit_code (main bind_fail_env [''add'', ''3'']) = None
   \<and> \<not> crashed (main bind_fail_env [''add'', ''3''])
   \<and> SetKernelArg 3 \<in> set (trace (state_of (main bind_fail_env [''add'', ''3''])))"
    by (simp add: m t)
  then show ?thesis using f by simp
qed

text \<open>
  Claim C3, evaluated where the code breaks it. In a run in which every call succeeds, the
  calls made between the two readings of the clock are the dispatch, the wait and also
  \<open>clEnqueueReadBuffer\<close>, the download of the result (and \<open>print(v_out, SZ)\<close>, which
  writes to standard output only, runs there too): the time reported as the kernel
  execution time covers more than the dispatch and the wait.
\<close>

theorem elapsed_time_covers_readback:
  "exit_code (main good_env [''add'', ''3'']) = None
   \<and> \<not> crashed (main good_env [''add'', ''3''])
   \<and> between_clocks (trace (state_of (main good_env [''add'', ''3''])))
       = [EnqueueNDRangeKernel 3, WaitForEvents, EnqueueReadBuffer (Some 2) 12]"
proof -
  from completes [OF good_env_readback sint_3_length]
  obtain s :: state and sf where m: "main good_env [''add'', ''3''] = Returns 0 sf"
    and t: "trace sf = [Malloc 12, Malloc 12, Malloc 12, GetPlatformIDs, GetDeviceIDs CL_DEVICE_TYPE_GPU,
       CreateContext, Fopen ''./vector_ops_ocl.cl'', Malloc 2, CreateProgramWithSource, Free,
       BuildProgram, CreateCommandQueue, CreateKernel ''vector_add_ocl'',
       CreateBuffer 12, CreateBuffer 12, CreateBuffer 12,
       EnqueueWriteBuffer (Some 0) 12, EnqueueWriteBuffer (Some 1) 12,
       SetKernelArg 0, SetKernelArg 1, SetKernelArg 2, SetKernelArg 3, ClockNow,
       EnqueueNDRangeKernel 3, WaitForEvents, EnqueueReadBuffer (Some 2) 12]
       @ [ClockNow, PrintElapsed, ReleaseMemObject (bufV1 s), ReleaseMemObject (bufV2 s),
          ReleaseMemObject (bufV_out s), ReleaseKernel, ReleaseCommandQueue, ReleaseProgram,
          ReleaseContext, Free, Free, Free]"
    by blast
  show ?thesis
    by (simp add: m t between_clocks_def)
qed

end
